theory Spec2Isabelle
  imports Complex_Main "HOL-Library.AList" "HOL-Library.Sublist"
begin

section \<open>Indicator engine (services/geminiService.ts, components/SparklineChart.tsx)\<close>

text \<open>
  A JavaScript \<open>number\<close> is modelled as a \<open>real\<close>: the arithmetic of the indicators is
  taken exactly, without the rounding of IEEE doubles and without \<open>NaN\<close> or infinities.
  Loop counters, array lengths and the lookback periods are natural numbers; every call
  site of the repository passes a positive integer literal for a period (12, 26, 9, 14).
  A \<open>for\<close> loop over an index range is a \<open>fold\<close> over \<open>[a..<b]\<close>, which visits the indices
  from left to right; every array read inside such a loop is in range by the loop bounds.
\<close>

record Candle =
  time :: int
  close :: real
  volume :: int

text \<open>
  \<open>parseFloat(x.toFixed(2))\<close>. \<open>Number.prototype.toFixed\<close> strips the sign, prints the
  number itself when it is at least \<open>10^21\<close>, and otherwise picks the integer \<open>n\<close> with
  \<open>n / 100\<close> closest to the magnitude, the larger one on a tie.
\<close>

definition toFixed2 :: "real \<Rightarrow> real" where
  "toFixed2 x =
     (let a = \<bar>x\<bar>;
          m = (if a \<ge> 10 ^ 21 then a else real_of_int \<lfloor>a * 100 + 1 / 2\<rfloor> / 100)
      in if x < 0 then - m else m)"

text \<open>\<open>calculateEMA\<close> of the Gemini service module.\<close>

definition calculateEMA :: "real list \<Rightarrow> nat \<Rightarrow> real list" where
  "calculateEMA prices period =
     (if length prices < period then []
      else
        let k = 2 / (real period + 1);
            sum = fold (\<lambda>i sum. sum + prices ! i) [0..<period] 0;
            emaArray = [sum / real period]
        in fold (\<lambda>i emaArray.
                   let newEma = (prices ! i * k) + (emaArray ! (length emaArray - 1) * (1 - k))
                   in emaArray @ [newEma])
             [period..<length prices] emaArray)"

text \<open>\<open>calculateEMA\<close> of the sparkline chart module, translated from its own text.\<close>

definition Sparkline_calculateEMA :: "real list \<Rightarrow> nat \<Rightarrow> real list" where
  "Sparkline_calculateEMA prices period =
     (if length prices < period then []
      else
        let k = 2 / (real period + 1);
            sum = fold (\<lambda>i sum. sum + prices ! i) [0..<period] 0;
            emaArray = [sum / real period]
        in fold (\<lambda>i emaArray.
                   let newEma = (prices ! i * k) + (emaArray ! (length emaArray - 1) * (1 - k))
                   in emaArray @ [newEma])
             [period..<length prices] emaArray)"

text \<open>
  \<open>Array.prototype.slice(start)\<close> for an integer \<open>start\<close>: a negative start counts from
  the end of the array.
\<close>

definition slice :: "int \<Rightarrow> 'a list \<Rightarrow> 'a list" where
  "slice start xs =
     (if start < 0 then drop (length xs - nat (- start)) xs else drop (nat start) xs)"

text \<open>The last element of an array, \<open>undefined\<close> (here \<open>None\<close>) when the array is empty.\<close>

definition last_elem :: "'a list \<Rightarrow> 'a option" where
  "last_elem xs = (if xs = [] then None else Some (xs ! (length xs - 1)))"

record MACDResult =
  macdLine :: real
  signalLine :: real
  histogram :: real

text \<open>
  \<open>calculateMACD\<close>; its three periods default to 12, 26 and 9 at every call site. The
  callback of \<open>map\<close> reads \<open>emaSlow[index]\<close>; lemma \<open>macd_index_in_range\<close> below shows the
  index is in range whenever the function gets that far.
\<close>

definition calculateMACD :: "Candle list \<Rightarrow> nat \<Rightarrow> nat \<Rightarrow> nat \<Rightarrow> MACDResult option" where
  "calculateMACD candles fastPeriod slowPeriod signalPeriod =
     (let prices = map close candles in
      if length prices < slowPeriod + signalPeriod then None
      else
        let emaFast = calculateEMA prices fastPeriod;
            emaSlow = calculateEMA prices slowPeriod;
            sliced = slice (int slowPeriod - int fastPeriod) emaFast;
            macdLineValues = map (\<lambda>index. sliced ! index - emaSlow ! index) [0..<length sliced]
        in if length macdLineValues < signalPeriod then None
           else
             let signalLineValues = calculateEMA macdLineValues signalPeriod in
             (case (last_elem macdLineValues, last_elem signalLineValues) of
                (Some lastMacdLine, Some lastSignalLine) \<Rightarrow>
                  let histogram = lastMacdLine - lastSignalLine in
                  Some \<lparr>macdLine = toFixed2 lastMacdLine,
                        signalLine = toFixed2 lastSignalLine,
                        histogram = toFixed2 histogram\<rparr>
              | _ \<Rightarrow> None))"

text \<open>
  \<open>calculateRSI\<close>. The first loop runs \<open>i = 1 .. period\<close>, the second
  \<open>i = period + 1 .. length - 1\<close>; the pair of running sums is the loop state.
\<close>

definition calculateRSI :: "Candle list \<Rightarrow> nat \<Rightarrow> real option" where
  "calculateRSI candles period =
     (if length candles \<le> period then None
      else
        let prices = map close candles;
            (gains, losses) =
              fold (\<lambda>i (gains, losses).
                      let change = prices ! i - prices ! (i - 1)
                      in if change > 0 then (gains + change, losses)
                         else (gains, losses - change))
                [1..<period + 1] (0, 0);
            avgGain0 = gains / real period;
            avgLoss0 = losses / real period;
            (avgGain, avgLoss) =
              fold (\<lambda>i (avgGain, avgLoss).
                      let change = prices ! i - prices ! (i - 1);
                          currentGain = (if change > 0 then change else 0);
                          currentLoss = (if change < 0 then - change else 0)
                      in ((avgGain * (real period - 1) + currentGain) / real period,
                          (avgLoss * (real period - 1) + currentLoss) / real period))
                [period + 1..<length prices] (avgGain0, avgLoss0)
        in if avgLoss = 0 then Some 100
           else
             let rs = avgGain / avgLoss;
                 rsi = 100 - (100 / (1 + rs))
             in Some (toFixed2 rsi))"

subsection \<open>The indicators as section 4.1 of the specification words them\<close>

text \<open>
  Rounded to 2 decimals: \<open>r\<close> is \<open>x\<close> rounded to two decimals when \<open>r\<close> is a whole number
  of hundredths, lies within half a hundredth of \<open>x\<close>, and, where \<open>x\<close> is exactly halfway
  between two hundredths, is the one of the two that is further from zero. This is
  written without reference to \<open>toFixed2\<close>, and the code is compared with it below.
\<close>

definition rounds_to_2dp :: "real \<Rightarrow> real \<Rightarrow> bool" where
  "rounds_to_2dp x r \<longleftrightarrow>
     (\<exists>n::int. r = real_of_int n / 100) \<and> \<bar>r - x\<bar> \<le> 1 / 200 \<and>
     (\<bar>r - x\<bar> = 1 / 200 \<longrightarrow> \<bar>x\<bar> < \<bar>r\<bar>)"

text \<open>
  A number of magnitude \<open>10^21\<close> or more is printed by \<open>toFixed\<close> as it is; below that, the
  result is the number rounded to two decimals.
\<close>

definition rounded2 :: "real \<Rightarrow> real \<Rightarrow> bool" where
  "rounded2 x r \<longleftrightarrow> (if \<bar>x\<bar> < 10 ^ 21 then rounds_to_2dp x r else r = x)"

text \<open>
  The specification describes the RSI over the sequence of deltas of the series: gains and
  losses are taken separately (a loss as a positive magnitude), the initial averages run
  over the first \<open>p\<close> deltas, and every later delta is folded in by Wilder smoothing
  \<open>avg = (avg * (p - 1) + current) / p\<close>. \<open>RSI_averages\<close> follows those words and gives the
  final average gain and the final average loss; the loops of the code are compared with
  it below.
\<close>

definition deltas :: "real list \<Rightarrow> real list" where
  "deltas series = map (\<lambda>i. series ! (i + 1) - series ! i) [0..<length series - 1]"

definition gain :: "real \<Rightarrow> real" where
  "gain d = (if d > 0 then d else 0)"

definition loss :: "real \<Rightarrow> real" where
  "loss d = (if d < 0 then - d else 0)"

definition wilder :: "nat \<Rightarrow> real \<Rightarrow> real \<Rightarrow> real" where
  "wilder p avg current = (avg * (real p - 1) + current) / real p"

definition RSI_averages :: "real list \<Rightarrow> nat \<Rightarrow> real \<times> real" where
  "RSI_averages series p =
     (let avgGain0 = sum_list (map gain (take p (deltas series))) / real p;
          avgLoss0 = sum_list (map loss (take p (deltas series))) / real p
      in (foldl (wilder p) avgGain0 (map gain (drop p (deltas series))),
          foldl (wilder p) avgLoss0 (map loss (drop p (deltas series)))))"

section \<open>The store of symbol states (App component)\<close>

text \<open>
  The types of \<open>types.ts\<close> as the App component uses them. \<open>stockData\<close> is a JavaScript
  object keyed by symbol; it is an association list here, in the insertion order in which
  \<open>Object.values\<close> and \<open>for ... in\<close> visit the keys of an object whose keys are ticker names.
  The field \<open>text\<close> of a chat message is called \<open>content\<close>, its flag \<open>error\<close> is \<open>failed\<close>.
  A parameter that the source calls \<open>symbol\<close> or \<open>error\<close> is \<open>symb\<close> or \<open>err\<close> below, since
  these names are fields of the records.
\<close>

datatype ConnectionStatus = OFFLINE | ONLINE | REFRESHING

datatype SignalType = BUY | SELL | HOLD

record NewsItem =
  title :: string
  uri :: string

record Signal =
  type :: SignalType
  reason :: string
  news :: "NewsItem list"

datatype ChatRole = User | Model

record ChatMessage =
  role :: ChatRole
  content :: string
  isLoading :: bool
  failed :: bool

record StockState =
  symbol :: string
  candles :: "Candle list"
  signal :: "Signal option"
  countdown :: int
  status :: ConnectionStatus
  chatHistory :: "ChatMessage list"
  error :: "string option"

type_synonym StockData = "(string \<times> StockState) list"

text \<open>
  The initial state of \<open>useState\<close>: one record per symbol of \<open>STOCKS\<close>. \<open>STOCKS\<close> and
  \<open>REFRESH_INTERVAL_SECONDS\<close> come from \<open>constants.ts\<close> and are parameters here.
\<close>

definition initialState :: "string list \<Rightarrow> int \<Rightarrow> StockData" where
  "initialState STOCKS REFRESH_INTERVAL_SECONDS =
     fold (\<lambda>symbol initialState.
             AList.update symbol
               \<lparr>symbol = symbol, candles = [], signal = None,
                countdown = REFRESH_INTERVAL_SECONDS, status = OFFLINE,
                chatHistory = [], error = None\<rparr>
               initialState)
       STOCKS []"

text \<open>
  \<open>{...prev, [symbol]: {...prev[symbol], fields}}\<close>: the record of \<open>symbol\<close> is replaced by
  an updated copy, every other key is kept. All callers pass a tracked symbol (an element
  of \<open>STOCKS\<close> or a key of the store); for another symbol JavaScript would add a record
  with only the written fields, which the record type cannot hold, and the model leaves
  the store as it is.
\<close>

definition setStock :: "string \<Rightarrow> (StockState \<Rightarrow> StockState) \<Rightarrow> StockData \<Rightarrow> StockData" where
  "setStock symb f prev =
     (case map_of prev symb of
        None \<Rightarrow> prev
      | Some s \<Rightarrow> AList.update symb (f s) prev)"

definition isRefreshingAll :: "StockData \<Rightarrow> bool" where
  "isRefreshingAll stockData = list_ex (\<lambda>s. status s = REFRESHING) (map snd stockData)"

subsection \<open>Errors of the AI service (services/geminiService.ts)\<close>

text \<open>
  A thrown value: an \<open>AIError\<close> with its message and user-facing message, a \<open>TypeError\<close>,
  a \<open>SyntaxError\<close>, or any other \<open>Error\<close>, each with its message.
\<close>

datatype js_error =
    AIError string string
  | TypeError string
  | SyntaxError string
  | Error string

fun message :: "js_error \<Rightarrow> string" where
  "message (AIError m u) = m"
| "message (TypeError m) = m"
| "message (SyntaxError m) = m"
| "message (Error m) = m"

text \<open>
  \<open>String.prototype.toLowerCase\<close> on the ASCII letters and \<open>String.prototype.includes\<close>.
\<close>

definition toLowerCase_char :: "char \<Rightarrow> char" where
  "toLowerCase_char c =
     (case map_of (zip ''ABCDEFGHIJKLMNOPQRSTUVWXYZ'' ''abcdefghijklmnopqrstuvwxyz'') c of
        None \<Rightarrow> c
      | Some l \<Rightarrow> l)"

definition toLowerCase :: "string \<Rightarrow> string" where
  "toLowerCase s = map toLowerCase_char s"

definition str_includes :: "string \<Rightarrow> string \<Rightarrow> bool" where
  "str_includes s searchString = sublist searchString s"

text \<open>\<open>handleApiError\<close> never returns: the value below is the \<open>AIError\<close> it throws.\<close>

definition handleApiError :: "js_error \<Rightarrow> js_error" where
  "handleApiError err =
     (let msg = toLowerCase (message err) in
      if str_includes msg ''api key not valid''
      then AIError (message err) ''Invalid API Key. Please ensure it is set correctly.''
      else if str_includes msg ''429'' \<or> str_includes msg ''resource_exhausted''
      then AIError (message err) ''API rate limit reached. Please wait and try again.''
      else if (case err of TypeError m \<Rightarrow> True | _ \<Rightarrow> False)
      then AIError (message err) ''Network error. Please check your internet connection.''
      else AIError (message err) ''An unexpected error occurred with the AI service.'')"

text \<open>A value returned by \<open>JSON.parse\<close>.\<close>

datatype json =
    JNull
  | JBool bool
  | JNumber real
  | JString string
  | JArray "json list"
  | JObject "(string \<times> json) list"

text \<open>
  What the provider call of \<open>getStockSignal\<close> comes to: \<open>generateContent\<close> rejects with an
  error; or it answers with a text that, trimmed and stripped of its code fence,
  \<open>JSON.parse\<close> refuses with a \<open>SyntaxError\<close> of the given message; or \<open>JSON.parse\<close> returns
  a value.
\<close>

datatype provider_outcome =
    Rejects js_error
  | NotJson string
  | Json json

text \<open>
  Reading a property: of \<open>null\<close> it throws a \<open>TypeError\<close> (the message is the one of V8,
  without its quotation marks); of an object it is the property or \<open>undefined\<close>; a
  boolean, a number, a string or an array has none of the properties \<open>type\<close>, \<open>reason\<close> and
  \<open>news\<close> that the code reads, so there it is \<open>undefined\<close> (\<open>None\<close>).
\<close>

fun get_property :: "json \<Rightarrow> string \<Rightarrow> js_error + json option" where
  "get_property JNull name =
     Inl (TypeError (''Cannot read properties of null (reading '' @ name @ '')''))"
| "get_property (JObject props) name = Inr (map_of props name)"
| "get_property v name = Inr None"

fun truthy :: "json option \<Rightarrow> bool" where
  "truthy None = False"
| "truthy (Some JNull) = False"
| "truthy (Some (JBool b)) = b"
| "truthy (Some (JNumber n)) = (n \<noteq> 0)"
| "truthy (Some (JString s)) = (s \<noteq> [])"
| "truthy (Some v) = True"

fun isArray :: "json option \<Rightarrow> bool" where
  "isArray (Some (JArray xs)) = True"
| "isArray v = False"

text \<open>
  The body of the \<open>try\<close> block of \<open>getStockSignal\<close> from \<open>JSON.parse\<close> on: the three
  properties are read from left to right with the short circuit of \<open>&&\<close>.
\<close>

definition validate_signal :: "json \<Rightarrow> js_error + json" where
  "validate_signal parsedJson =
     (case get_property parsedJson ''type'' of
        Inl e \<Rightarrow> Inl e
      | Inr t \<Rightarrow>
          if \<not> truthy t then Inl (Error ''Invalid JSON structure received from AI.'')
          else (case get_property parsedJson ''reason'' of
                  Inl e \<Rightarrow> Inl e
                | Inr r \<Rightarrow>
                    if \<not> truthy r then Inl (Error ''Invalid JSON structure received from AI.'')
                    else (case get_property parsedJson ''news'' of
                            Inl e \<Rightarrow> Inl e
                          | Inr n \<Rightarrow>
                              if isArray n then Inr parsedJson
                              else Inl (Error ''Invalid JSON structure received from AI.''))))"

text \<open>The \<open>catch\<close> block of \<open>getStockSignal\<close>.\<close>

definition getStockSignal_catch :: "js_error \<Rightarrow> js_error" where
  "getStockSignal_catch err =
     (case err of
        SyntaxError m \<Rightarrow>
          AIError m ''AI returned an invalid response format. Please try refreshing.''
      | _ \<Rightarrow> handleApiError err)"

text \<open>
  \<open>getStockSignal\<close> from the provider's outcome: the value it resolves to (\<open>Inr\<close>, the
  parsed object cast to \<open>Signal\<close>) or the error it rejects with (\<open>Inl\<close>).
\<close>

definition getStockSignal :: "provider_outcome \<Rightarrow> js_error + json" where
  "getStockSignal outcome =
     (case (case outcome of
              Rejects e \<Rightarrow> Inl e
            | NotJson m \<Rightarrow> Inl (SyntaxError m)
            | Json parsedJson \<Rightarrow> validate_signal parsedJson) of
        Inl err \<Rightarrow> Inl (getStockSignal_catch err)
      | Inr v \<Rightarrow> Inr v)"

text \<open>The five user-facing messages of the service module.\<close>

definition userMessages :: "string set" where
  "userMessages =
     {''Invalid API Key. Please ensure it is set correctly.'',
      ''API rate limit reached. Please wait and try again.'',
      ''Network error. Please check your internet connection.'',
      ''AI returned an invalid response format. Please try refreshing.'',
      ''An unexpected error occurred with the AI service.''}"

subsection \<open>fetchSignal\<close>

text \<open>
  \<open>fetchSignal\<close> in its three state updates: the one before the provider call, the one
  after \<open>getStockSignal\<close> resolved, and the one of the \<open>catch\<close> block. Between the first and
  one of the others the call is outstanding and other updates of the store may happen.
\<close>

definition fetchSignal_begin :: "string \<Rightarrow> StockData \<Rightarrow> StockData" where
  "fetchSignal_begin symb prev =
     setStock symb (\<lambda>s. s\<lparr>status := REFRESHING, error := None\<rparr>) prev"

definition fetchSignal_resolved ::
  "int \<Rightarrow> string \<Rightarrow> Candle list \<Rightarrow> Signal \<Rightarrow> StockData \<Rightarrow> StockData" where
  "fetchSignal_resolved REFRESH_INTERVAL_SECONDS symb newCandles sig prev =
     setStock symb
       (\<lambda>s. s\<lparr>candles := newCandles, signal := Some sig, status := ONLINE,
               countdown := REFRESH_INTERVAL_SECONDS, error := None\<rparr>) prev"

definition fetchSignal_catch :: "int \<Rightarrow> string \<Rightarrow> js_error \<Rightarrow> StockData \<Rightarrow> StockData" where
  "fetchSignal_catch REFRESH_INTERVAL_SECONDS symb err prev =
     (let userMessage = (case err of AIError m userFriendlyMessage \<Rightarrow> userFriendlyMessage
                                    | _ \<Rightarrow> ''An unknown error occurred.'')
      in setStock symb
           (\<lambda>s. s\<lparr>status := OFFLINE, countdown := REFRESH_INTERVAL_SECONDS,
                   error := Some userMessage\<rparr>) prev)"

text \<open>The three chat updates of \<open>handleSendMessage\<close> all replace the chat history.\<close>

definition setChatHistory :: "string \<Rightarrow> ChatMessage list \<Rightarrow> StockData \<Rightarrow> StockData" where
  "setChatHistory symb history prev = setStock symb (\<lambda>s. s\<lparr>chatHistory := history\<rparr>) prev"

text \<open>\<open>handleRefreshAll\<close>: the symbols whose \<open>fetchSignal\<close> it hands to \<open>scheduleApiCall\<close>.\<close>

definition handleRefreshAll :: "string list \<Rightarrow> string list" where
  "handleRefreshAll STOCKS = STOCKS"

subsection \<open>The one-second tick\<close>

text \<open>
  The callback of \<open>setInterval\<close> creates the empty array \<open>symbolsToFetch\<close>, passes an updater
  to \<open>setStockData\<close>, and directly after that call hands every symbol it finds in
  \<open>symbolsToFetch\<close> to \<open>scheduleApiCall\<close>.

  \<open>tick_updater\<close> is the updater: it walks the keys of the store and returns the new store
  together with the symbols it pushes onto \<open>symbolsToFetch\<close> while it runs.
\<close>

fun tick_updater :: "StockData \<Rightarrow> StockData \<times> string list" where
  "tick_updater [] = ([], [])"
| "tick_updater ((symb, s) # rest) =
     (let (newRest, symbolsToFetch) = tick_updater rest in
      if status s = ONLINE then
        let newCountdown = countdown s - 1 in
        if newCountdown \<le> 0
        then ((symb, s\<lparr>status := REFRESHING, countdown := 0\<rparr>) # newRest,
              symb # symbolsToFetch)
        else ((symb, s\<lparr>countdown := newCountdown\<rparr>) # newRest, symbolsToFetch)
      else ((symb, s) # newRest, symbolsToFetch))"

text \<open>
  When the updater runs is decided by React, which is not part of the repository: it
  either calls the updater within the call of \<open>setStockData\<close>, or it queues the updater
  and calls it when it next renders the component, after the callback of the timer has
  returned. The store the next render shows is the same in both cases. The array
  \<open>symbolsToFetch\<close> is read once, right after \<open>setStockData\<close> returns: in the first case it
  holds what the updater pushed, in the second it is still empty.

  \<open>tick\<close> is the callback: the pair of the new store and the symbols handed to
  \<open>scheduleApiCall\<close>.
\<close>

datatype updater_time = InsideSetState | AtNextRender

definition tick :: "updater_time \<Rightarrow> StockData \<Rightarrow> StockData \<times> string list" where
  "tick t prevData =
     (let (newData, pushed) = tick_updater prevData;
          symbolsToFetch = (case t of InsideSetState \<Rightarrow> pushed | AtNextRender \<Rightarrow> [])
      in (newData, symbolsToFetch))"

subsection \<open>The sentiment effect\<close>

text \<open>
  The callback of the debounce timer. \<open>signalsForSentiment\<close> is the object built by
  \<open>reduce\<close>; the result is the list of calls handed to \<open>scheduleApiCall\<close>, each the argument
  of \<open>getMarketSentiment\<close>: no call or one.
\<close>

definition signalsForSentiment :: "StockData \<Rightarrow> (string \<times> SignalType) list" where
  "signalsForSentiment stockData =
     fold (\<lambda>s acc. case signal s of
                      None \<Rightarrow> acc
                    | Some sig \<Rightarrow> AList.update (symbol s) (type sig) acc)
       (filter (\<lambda>s. signal s \<noteq> None \<and> status s = ONLINE) (map snd stockData)) []"

definition sentimentTimer :: "string list \<Rightarrow> StockData \<Rightarrow> (string \<times> SignalType) list list" where
  "sentimentTimer STOCKS stockData =
     (if real (length (signalsForSentiment stockData)) > real (length STOCKS) / 2
      then [signalsForSentiment stockData]
      else [])"

text \<open>
  The states the store can take: from the initial state by any sequence of the state
  updates above, with any symbol, candles, signal, error and chat history.
\<close>

inductive reachable :: "string list \<Rightarrow> int \<Rightarrow> StockData \<Rightarrow> bool"
  for STOCKS :: "string list" and REFRESH_INTERVAL_SECONDS :: int where
  r_init: "reachable STOCKS REFRESH_INTERVAL_SECONDS (initialState STOCKS REFRESH_INTERVAL_SECONDS)"
| r_begin: "reachable STOCKS REFRESH_INTERVAL_SECONDS d \<Longrightarrow>
     reachable STOCKS REFRESH_INTERVAL_SECONDS (fetchSignal_begin symb d)"
| r_resolved: "reachable STOCKS REFRESH_INTERVAL_SECONDS d \<Longrightarrow>
     reachable STOCKS REFRESH_INTERVAL_SECONDS
       (fetchSignal_resolved REFRESH_INTERVAL_SECONDS symb newCandles sig d)"
| r_catch: "reachable STOCKS REFRESH_INTERVAL_SECONDS d \<Longrightarrow>
     reachable STOCKS REFRESH_INTERVAL_SECONDS
       (fetchSignal_catch REFRESH_INTERVAL_SECONDS symb err d)"
| r_chat: "reachable STOCKS REFRESH_INTERVAL_SECONDS d \<Longrightarrow>
     reachable STOCKS REFRESH_INTERVAL_SECONDS (setChatHistory symb history d)"
| r_tick: "reachable STOCKS REFRESH_INTERVAL_SECONDS d \<Longrightarrow>
     reachable STOCKS REFRESH_INTERVAL_SECONDS (fst (tick_updater d))"

text \<open>
  Two invariants of the reachable stores: the keys are distinct and every record carries
  its own key as \<open>symbol\<close>; and an \<open>ONLINE\<close> record has a countdown of at least one.
\<close>

definition store_inv :: "StockData \<Rightarrow> bool" where
  "store_inv d \<longleftrightarrow> distinct (map fst d) \<and> (\<forall>k s. map_of d k = Some s \<longrightarrow> symbol s = k)"

definition online_positive :: "StockData \<Rightarrow> bool" where
  "online_positive d \<longleftrightarrow>
     (\<forall>k s. map_of d k = Some s \<longrightarrow> status s = ONLINE \<longrightarrow> 1 \<le> countdown s)"

section \<open>The rate limiter (utils/apiRateLimiter.ts)\<close>

text \<open>
  Modelled from the spec: \<open>scheduleApiCall\<close> of \<open>utils/apiRateLimiter.ts\<close>, which is imported
  by the App component and is not among the sources. Section 4.3 of the specification
  gives its contract: \<open>Schedule(action)\<close> puts a call at the end of one shared queue; calls
  are admitted first submitted, first admitted; at most a configured number of actions
  are in flight at once; a call not yet dispatched can be cancelled, which removes it
  from the queue and nothing else; a call in flight cannot be cancelled; and the failure
  of one action does not affect the others. The minimum spacing between two dispatches
  is a matter of real time and is not modelled: admission is an event of its own, which
  the limiter may take whenever its pacing allows, and which has an effect only when
  the limiter has capacity and a call is queued.

  A scheduled call is the pair of its id and its action. \<open>admitted\<close> records the ids in
  the order of their admission; it is there to state the order and no operation reads it.
\<close>

record 'a RateLimiter =
  maxConcurrent :: nat
  queue :: "(nat \<times> 'a) list"
  inFlight :: "(nat \<times> 'a) list"
  nextId :: nat
  admitted :: "nat list"

definition newLimiter :: "nat \<Rightarrow> 'a RateLimiter" where
  "newLimiter n = \<lparr>maxConcurrent = n, queue = [], inFlight = [], nextId = 0, admitted = []\<rparr>"

definition schedule :: "'a \<Rightarrow> 'a RateLimiter \<Rightarrow> 'a RateLimiter" where
  "schedule a L = L\<lparr>queue := queue L @ [(nextId L, a)], nextId := nextId L + 1\<rparr>"

text \<open>The call the limiter would admit now: the head of the queue, if there is capacity.\<close>

definition next_call :: "'a RateLimiter \<Rightarrow> (nat \<times> 'a) option" where
  "next_call L =
     (if length (inFlight L) < maxConcurrent L
      then (case queue L of [] \<Rightarrow> None | c # rest \<Rightarrow> Some c)
      else None)"

definition admit :: "'a RateLimiter \<Rightarrow> 'a RateLimiter" where
  "admit L =
     (case next_call L of
        None \<Rightarrow> L
      | Some c \<Rightarrow> L\<lparr>queue := tl (queue L), inFlight := inFlight L @ [c],
                    admitted := admitted L @ [fst c]\<rparr>)"

text \<open>An action in flight completes, with a result or with a failure.\<close>

definition complete :: "nat \<Rightarrow> 'a RateLimiter \<Rightarrow> 'a RateLimiter" where
  "complete i L = L\<lparr>inFlight := filter (\<lambda>c. fst c \<noteq> i) (inFlight L)\<rparr>"

definition cancel :: "nat \<Rightarrow> 'a RateLimiter \<Rightarrow> 'a RateLimiter" where
  "cancel i L = L\<lparr>queue := filter (\<lambda>c. fst c \<noteq> i) (queue L)\<rparr>"

datatype 'a limiter_event = Schedule 'a | Admit | Complete nat | Cancel nat

fun limiter_step :: "'a RateLimiter \<Rightarrow> 'a limiter_event \<Rightarrow> 'a RateLimiter" where
  "limiter_step L (Schedule a) = schedule a L"
| "limiter_step L Admit = admit L"
| "limiter_step L (Complete i) = complete i L"
| "limiter_step L (Cancel i) = cancel i L"

definition limiter_run :: "nat \<Rightarrow> 'a limiter_event list \<Rightarrow> 'a RateLimiter" where
  "limiter_run n events = foldl limiter_step (newLimiter n) events"

text \<open>
  The invariant of the limiter with concurrency \<open>n\<close>: at most \<open>n\<close> calls in flight, and the ids
  admitted so far followed by the ids still queued are in increasing order and below
  the next id, that is, in the order of submission.
\<close>

definition limiter_inv :: "nat \<Rightarrow> 'a RateLimiter \<Rightarrow> bool" where
  "limiter_inv n L \<longleftrightarrow>
     maxConcurrent L = n \<and> length (inFlight L) \<le> n \<and>
     sorted_wrt (<) (admitted L @ map fst (queue L)) \<and>
     (\<forall>i \<in> set (admitted L @ map fst (queue L)). i < nextId L)"

section \<open>The App component as a whole\<close>

text \<open>
  The store together with the limiter. The actions handed to \<open>scheduleApiCall\<close> are
  \<open>() => fetchSignal(symbol)\<close> and \<open>() => getMarketSentiment(signalsForSentiment)\<close>. A
  \<open>fetchSignal\<close> in flight has made its first state update and awaits \<open>getStockSignal\<close>: it
  is one outstanding refresh call of its symbol.
\<close>

datatype Action = FetchSignal string | MarketSentiment "(string \<times> SignalType) list"

record System =
  stockData :: StockData
  limiter :: "Action RateLimiter"

text \<open>
  What can happen: the mount effect, which calls \<open>handleRefreshAll\<close>; a click on Refresh
  All, whose button is disabled while \<open>isRefreshingAll\<close>; a tick of the interval timer, with
  the time at which React runs the updater of that tick; the limiter admitting its next call, which starts the action; the provider call of a
  \<open>fetchSignal\<close> in flight resolving (with the candles generated for it and the signal) or
  rejecting; the debounce timer of the sentiment effect firing; and a sentiment call in
  flight finishing.
\<close>

datatype Event =
    Mount
  | ClickRefreshAll
  | Tick updater_time
  | AdmitNext
  | Resolved nat "Candle list" Signal
  | Rejected nat js_error
  | SentimentTimerFires
  | SentimentDone nat

definition initialSystem :: "string list \<Rightarrow> int \<Rightarrow> nat \<Rightarrow> System" where
  "initialSystem STOCKS REFRESH_INTERVAL_SECONDS n =
     \<lparr>stockData = initialState STOCKS REFRESH_INTERVAL_SECONDS, limiter = newLimiter n\<rparr>"

fun sys_step :: "string list \<Rightarrow> int \<Rightarrow> System \<Rightarrow> Event \<Rightarrow> System" where
  "sys_step STOCKS I S Mount =
     S\<lparr>limiter := fold (\<lambda>symb. schedule (FetchSignal symb)) (handleRefreshAll STOCKS) (limiter S)\<rparr>"
| "sys_step STOCKS I S ClickRefreshAll =
     (if isRefreshingAll (stockData S) then S
      else S\<lparr>limiter := fold (\<lambda>symb. schedule (FetchSignal symb)) (handleRefreshAll STOCKS)
                            (limiter S)\<rparr>)"
| "sys_step STOCKS I S (Tick t) =
     (let (newData, symbolsToFetch) = tick t (stockData S) in
      \<lparr>stockData = newData,
       limiter = fold (\<lambda>symb. schedule (FetchSignal symb)) symbolsToFetch (limiter S)\<rparr>)"
| "sys_step STOCKS I S AdmitNext =
     (case next_call (limiter S) of
        None \<Rightarrow> S
      | Some (i, FetchSignal symb) \<Rightarrow>
          \<lparr>stockData = fetchSignal_begin symb (stockData S), limiter = admit (limiter S)\<rparr>
      | Some (i, MarketSentiment signals) \<Rightarrow> S\<lparr>limiter := admit (limiter S)\<rparr>)"
| "sys_step STOCKS I S (Resolved i newCandles sig) =
     (case map_of (inFlight (limiter S)) i of
        Some (FetchSignal symb) \<Rightarrow>
          \<lparr>stockData = fetchSignal_resolved I symb newCandles sig (stockData S),
           limiter = complete i (limiter S)\<rparr>
      | _ \<Rightarrow> S)"
| "sys_step STOCKS I S (Rejected i err) =
     (case map_of (inFlight (limiter S)) i of
        Some (FetchSignal symb) \<Rightarrow>
          \<lparr>stockData = fetchSignal_catch I symb err (stockData S),
           limiter = complete i (limiter S)\<rparr>
      | _ \<Rightarrow> S)"
| "sys_step STOCKS I S SentimentTimerFires =
     S\<lparr>limiter := fold (\<lambda>signals. schedule (MarketSentiment signals))
                        (sentimentTimer STOCKS (stockData S)) (limiter S)\<rparr>"
| "sys_step STOCKS I S (SentimentDone i) =
     (case map_of (inFlight (limiter S)) i of
        Some (MarketSentiment signals) \<Rightarrow> S\<lparr>limiter := complete i (limiter S)\<rparr>
      | _ \<Rightarrow> S)"

definition sys_run :: "string list \<Rightarrow> int \<Rightarrow> nat \<Rightarrow> Event list \<Rightarrow> System" where
  "sys_run STOCKS I n events = foldl (sys_step STOCKS I) (initialSystem STOCKS I n) events"

text \<open>The number of refresh calls of a symbol that are outstanding.\<close>

definition outstanding :: "System \<Rightarrow> string \<Rightarrow> nat" where
  "outstanding S symb = length (filter (\<lambda>c. snd c = FetchSignal symb) (inFlight (limiter S)))"

section \<open>Properties of the indicator engine\<close>

lemma ema_loop_length:
  "length (fold (\<lambda>i emaArray. emaArray @ [f i emaArray]) is acc) = length acc + length is"
  by (induction "is" arbitrary: acc) auto

lemma calculateEMA_length:
  "length (calculateEMA prices period) =
     (if length prices < period then 0 else length prices - period + 1)"
  by (simp add: calculateEMA_def Let_def ema_loop_length)

text \<open>
  C10: the EMA of the Gemini service module and the EMA of the sparkline chart module
  return the same sequence for every price series and every period.
\<close>

theorem calculateEMA_modules_agree:
  "Sparkline_calculateEMA prices period = calculateEMA prices period"
  by (simp add: Sparkline_calculateEMA_def calculateEMA_def)

lemma sum_loop:
  "n \<le> length xs \<Longrightarrow>
     fold (\<lambda>i sum. sum + xs ! i) [0..<n] (a::real) = a + sum_list (take n xs)"
  by (induction n) (auto simp: take_Suc_conv_app_nth)

text \<open>
  The push loop of the EMA, for any loop body that appends one value computed from the
  current price and the last element pushed so far.
\<close>

lemma ema_loop_spec:
  fixes step :: "nat \<Rightarrow> real list \<Rightarrow> real list"
  assumes body: "\<And>i acc. step i acc = acc @ [prices ! i * k + acc ! (length acc - 1) * (1 - k)]"
    and "p \<le> b"
  shows "length (fold step [p..<b] [seed]) = b - p + 1 \<and>
         fold step [p..<b] [seed] ! 0 = seed \<and>
         (\<forall>i. p \<le> i \<and> i < b \<longrightarrow>
            fold step [p..<b] [seed] ! (i - p + 1) =
              prices ! i * k + fold step [p..<b] [seed] ! (i - p) * (1 - k))"
  using \<open>p \<le> b\<close>
proof (induction b rule: dec_induct)
  case base
  show ?case by simp
next
  case (step n)
  let ?E = "fold step [p..<n] [seed]"
  have len: "length ?E = n - p + 1" and z: "?E ! 0 = seed"
    and rec: "\<And>i. p \<le> i \<Longrightarrow> i < n \<Longrightarrow>
                ?E ! (i - p + 1) = prices ! i * k + ?E ! (i - p) * (1 - k)"
    using step.IH by auto
  have unf: "fold step [p..<Suc n] [seed] = ?E @ [prices ! n * k + ?E ! (n - p) * (1 - k)]"
    using step.hyps len by (simp add: body)
  show ?case
  proof (intro conjI allI impI)
    show "length (fold step [p..<Suc n] [seed]) = Suc n - p + 1"
      using step.hyps len unf by simp
    show "fold step [p..<Suc n] [seed] ! 0 = seed"
      using len z unf by (simp add: nth_append)
    fix i assume i: "p \<le> i \<and> i < Suc n"
    show "fold step [p..<Suc n] [seed] ! (i - p + 1) =
          prices ! i * k + fold step [p..<Suc n] [seed] ! (i - p) * (1 - k)"
    proof (cases "i = n")
      case True
      then show ?thesis using len unf step.hyps by (simp add: nth_append)
    next
      case False
      then have lt: "i < n" using i by simp
      then have a: "i - p + 1 < length ?E" and b: "i - p < length ?E"
        using len i by auto
      show ?thesis
        using a b rec[of i] i lt unfolding unf by (simp add: nth_append)
    qed
  qed
qed

text \<open>
  C5: for a series shorter than the period the EMA is empty. Otherwise it has
  \<open>length - period + 1\<close> elements; its first element is the arithmetic mean of the first
  \<open>period\<close> samples (for a positive period, where the mean is defined); and every later
  element is \<open>price * k + previous * (1 - k)\<close> with \<open>k = 2 / (period + 1)\<close>, the element for
  price index \<open>i\<close> standing at position \<open>i - period + 1\<close> of the output.
\<close>

theorem calculateEMA_spec:
  "(length prices < period \<longrightarrow> calculateEMA prices period = []) \<and>
   (period \<le> length prices \<longrightarrow>
      length (calculateEMA prices period) = length prices - period + 1 \<and>
      (0 < period \<longrightarrow>
         calculateEMA prices period ! 0 = sum_list (take period prices) / real period) \<and>
      (\<forall>i. period \<le> i \<and> i < length prices \<longrightarrow>
         calculateEMA prices period ! (i - period + 1) =
           prices ! i * (2 / (real period + 1)) +
           calculateEMA prices period ! (i - period) * (1 - 2 / (real period + 1))))"
proof (intro conjI impI)
  show "length prices < period \<Longrightarrow> calculateEMA prices period = []"
    by (simp add: calculateEMA_def)
next
  assume le: "period \<le> length prices"
  let ?step = "\<lambda>i emaArray.
     let newEma = (prices ! i * (2 / (real period + 1))) +
                  (emaArray ! (length emaArray - 1) * (1 - 2 / (real period + 1)))
     in emaArray @ [newEma]"
  have eq: "calculateEMA prices period =
      fold ?step [period..<length prices] [sum_list (take period prices) / real period]"
    using le by (simp add: calculateEMA_def Let_def sum_loop)
  have loop: "length (fold ?step [period..<length prices]
                  [sum_list (take period prices) / real period]) = length prices - period + 1 \<and>
         fold ?step [period..<length prices] [sum_list (take period prices) / real period] ! 0 =
           sum_list (take period prices) / real period \<and>
         (\<forall>i. period \<le> i \<and> i < length prices \<longrightarrow>
            fold ?step [period..<length prices]
              [sum_list (take period prices) / real period] ! (i - period + 1) =
              prices ! i * (2 / (real period + 1)) +
              fold ?step [period..<length prices]
                [sum_list (take period prices) / real period] ! (i - period) *
              (1 - 2 / (real period + 1)))"
    by (rule ema_loop_spec[OF _ le]) (simp add: Let_def)
  show "length (calculateEMA prices period) = length prices - period + 1"
    using loop unfolding eq by blast
  show "calculateEMA prices period ! 0 = sum_list (take period prices) / real period"
    using loop unfolding eq by blast
  show "\<forall>i. period \<le> i \<and> i < length prices \<longrightarrow>
         calculateEMA prices period ! (i - period + 1) =
           prices ! i * (2 / (real period + 1)) +
           calculateEMA prices period ! (i - period) * (1 - 2 / (real period + 1))"
    using loop unfolding eq by blast
qed

theorem calculateEMA_spec_witness:
  "calculateEMA [1] 2 = [] \<and>
   length (calculateEMA [1, 2, 3, 6] 2) = 3 \<and>
   calculateEMA [1, 2, 3, 6] 2 ! 0 = 3 / 2 \<and>
   calculateEMA [1, 2, 3, 6] 2 ! 1 = 3 * (2 / 3) + (3 / 2) * (1 / 3) \<and>
   calculateEMA [1, 2, 3, 6] 2 ! 2 = 6 * (2 / 3) + calculateEMA [1, 2, 3, 6] 2 ! 1 * (1 / 3)"
proof -
  note short = calculateEMA_spec[of "[1]" 2]
  note long = calculateEMA_spec[of "[1, 2, 3, 6]" 2]
  have e: "calculateEMA [1] 2 = []" using short by simp
  have l: "length (calculateEMA [1, 2, 3, 6] 2) = 3" using long by simp
  have z: "calculateEMA [1, 2, 3, 6] 2 ! 0 = 3 / 2" using long by simp
  have r: "\<And>i. 2 \<le> i \<and> i < 4 \<Longrightarrow>
             calculateEMA [1, 2, 3, 6] 2 ! (i - 2 + 1) =
               [1, 2, 3, 6] ! i * (2 / 3) + calculateEMA [1, 2, 3, 6] 2 ! (i - 2) * (1 / 3)"
    using long by simp
  have one: "calculateEMA [1, 2, 3, 6] 2 ! 1 = 3 * (2 / 3) + (3 / 2) * (1 / 3)"
    using r[of 2] z by simp
  have two: "calculateEMA [1, 2, 3, 6] 2 ! 2 =
               6 * (2 / 3) + calculateEMA [1, 2, 3, 6] 2 ! 1 * (1 / 3)"
    using r[of 3] by (simp add: numeral_2_eq_2)
  show ?thesis using e l z one two by blast
qed

lemma macd_index_in_range:
  assumes "slowPeriod + signalPeriod \<le> length prices"
  shows "length (slice (int slowPeriod - int fastPeriod) (calculateEMA prices fastPeriod))
           \<le> length (calculateEMA prices slowPeriod)"
  using assms by (auto simp: slice_def calculateEMA_length)

lemma map_index_diff:
  assumes "length xs = length ys"
  shows "map (\<lambda>index. xs ! index - ys ! index) [0..<length xs] = map2 (-) xs (ys :: real list)"
  using assms by (intro nth_equalityI) auto

lemma last_elem_Some: "xs \<noteq> [] \<Longrightarrow> last_elem xs = Some (last xs)"
  by (simp add: last_elem_def last_conv_nth)

text \<open>
  \<open>toFixed2\<close> rounds to two decimals in the sense of \<open>rounds_to_2dp\<close>, and a number has one
  rounding only.
\<close>

lemma round_half_up:
  fixes a :: real
  assumes "0 \<le> a"
  shows "rounds_to_2dp a (real_of_int \<lfloor>a * 100 + 1 / 2\<rfloor> / 100)"
proof -
  define n where "n = \<lfloor>a * 100 + 1 / 2\<rfloor>"
  have lo: "real_of_int n \<le> a * 100 + 1 / 2" and hi: "a * 100 + 1 / 2 < real_of_int n + 1"
    unfolding n_def by linarith+
  have n0: "0 \<le> real_of_int n"
  proof -
    have "0 \<le> n" unfolding n_def using assms by simp
    then show ?thesis by simp
  qed
  have c: "\<bar>real_of_int n / 100 - a\<bar> \<le> 1 / 200" using lo hi by linarith
  have t: "\<bar>real_of_int n / 100 - a\<bar> = 1 / 200 \<longrightarrow> \<bar>a\<bar> < \<bar>real_of_int n / 100\<bar>"
  proof
    assume e: "\<bar>real_of_int n / 100 - a\<bar> = 1 / 200"
    have "real_of_int n / 100 - a = 1 / 200" using e hi by linarith
    then show "\<bar>a\<bar> < \<bar>real_of_int n / 100\<bar>" using assms n0 by linarith
  qed
  have g: "\<exists>k::int. real_of_int n / 100 = real_of_int k / 100" by blast
  show ?thesis unfolding rounds_to_2dp_def n_def[symmetric] using g c t by blast
qed

lemma rounds_to_2dp_neg: "rounds_to_2dp x r \<Longrightarrow> rounds_to_2dp (- x) (- r)"
proof -
  assume a: "rounds_to_2dp x r"
  then obtain n :: int where n: "r = real_of_int n / 100" unfolding rounds_to_2dp_def by blast
  have "- r = real_of_int (- n) / 100" using n by simp
  then have g: "\<exists>k::int. - r = real_of_int k / 100" by blast
  have e: "\<bar>- r - - x\<bar> = \<bar>r - x\<bar>" by simp
  show ?thesis unfolding rounds_to_2dp_def e using a g unfolding rounds_to_2dp_def by simp
qed

lemma toFixed2_rounds:
  assumes "\<bar>x\<bar> < 10 ^ 21"
  shows "rounds_to_2dp x (toFixed2 x)"
proof (cases "x < 0")
  case True
  have "rounds_to_2dp (- x) (real_of_int \<lfloor>(- x) * 100 + 1 / 2\<rfloor> / 100)"
    by (rule round_half_up) (use True in simp)
  then have "rounds_to_2dp (- (- x)) (- (real_of_int \<lfloor>(- x) * 100 + 1 / 2\<rfloor> / 100))"
    by (rule rounds_to_2dp_neg)
  then have r: "rounds_to_2dp x (- (real_of_int \<lfloor>(- x) * 100 + 1 / 2\<rfloor> / 100))"
    by (simp only: minus_minus)
  have eq: "toFixed2 x = - (real_of_int \<lfloor>(- x) * 100 + 1 / 2\<rfloor> / 100)"
    using True assms by (simp add: toFixed2_def Let_def)
  show ?thesis unfolding eq by (rule r)
next
  case False
  have r: "rounds_to_2dp x (real_of_int \<lfloor>x * 100 + 1 / 2\<rfloor> / 100)"
    by (rule round_half_up) (use False in simp)
  have eq: "toFixed2 x = real_of_int \<lfloor>x * 100 + 1 / 2\<rfloor> / 100"
    using False assms by (simp add: toFixed2_def Let_def)
  show ?thesis unfolding eq by (rule r)
qed

lemma toFixed2_rounded2: "rounded2 x (toFixed2 x)"
proof (cases "\<bar>x\<bar> < 10 ^ 21")
  case True
  then show ?thesis by (simp add: rounded2_def toFixed2_rounds)
next
  case False
  then have big: "10 ^ 21 \<le> \<bar>x\<bar>" by simp
  have "toFixed2 x = (if x < 0 then - \<bar>x\<bar> else \<bar>x\<bar>)"
    using big by (simp only: toFixed2_def Let_def if_True)
  also have "\<dots> = x" by simp
  finally show ?thesis using False by (simp only: rounded2_def if_False)
qed

lemma rounds_to_2dp_unique:
  assumes "rounds_to_2dp x r" and "rounds_to_2dp x r'"
  shows "r = r'"
proof -
  obtain n :: int where n: "r = real_of_int n / 100" using assms(1) unfolding rounds_to_2dp_def by blast
  obtain k :: int where k: "r' = real_of_int k / 100" using assms(2) unfolding rounds_to_2dp_def by blast
  have c: "\<bar>r - x\<bar> \<le> 1 / 200" and c': "\<bar>r' - x\<bar> \<le> 1 / 200"
    and t: "\<bar>r - x\<bar> = 1 / 200 \<Longrightarrow> \<bar>x\<bar> < \<bar>r\<bar>" and t': "\<bar>r' - x\<bar> = 1 / 200 \<Longrightarrow> \<bar>x\<bar> < \<bar>r'\<bar>"
    using assms unfolding rounds_to_2dp_def by auto
  have "\<bar>real_of_int n - real_of_int k\<bar> \<le> 1" using c c' n k by linarith
  then have "\<bar>n - k\<bar> \<le> 1" by linarith
  then consider "n = k" | "n = k + 1" | "k = n + 1" by linarith
  then show ?thesis
  proof cases
    case 1
    then show ?thesis using n k by simp
  next
    case 2
    then have d: "r = r' + 1 / 100" using n k by simp
    then have "\<bar>r - x\<bar> = 1 / 200" and "\<bar>r' - x\<bar> = 1 / 200" using c c' by linarith+
    then have "\<bar>x\<bar> < \<bar>r\<bar>" and "\<bar>x\<bar> < \<bar>r'\<bar>" using t t' by blast+
    then have "r' < 0 \<and> 0 < r" using d c c' by linarith
    then have "real_of_int k < 0 \<and> 0 < real_of_int n" using n k by simp
    then have "k < 0 \<and> 0 < n" by simp
    then show ?thesis using 2 by linarith
  next
    case 3
    then have d: "r' = r + 1 / 100" using n k by simp
    then have "\<bar>r - x\<bar> = 1 / 200" and "\<bar>r' - x\<bar> = 1 / 200" using c c' by linarith+
    then have "\<bar>x\<bar> < \<bar>r\<bar>" and "\<bar>x\<bar> < \<bar>r'\<bar>" using t t' by blast+
    then have "r < 0 \<and> 0 < r'" using d c c' by linarith
    then have "real_of_int n < 0 \<and> 0 < real_of_int k" using n k by simp
    then have "n < 0 \<and> 0 < k" by simp
    then show ?thesis using 3 by linarith
  qed
qed

text \<open>
  The loops and the index arithmetic of \<open>calculateMACD\<close> with the default periods, unfolded.
\<close>

lemma calculateMACD_unfolded:
  "(calculateMACD cs 12 26 9 = None \<longleftrightarrow> length cs < 35) \<and>
   (35 \<le> length cs \<longrightarrow>
      calculateMACD cs 12 26 9 =
        (let prices = map close cs;
             macdLineValues =
               map2 (-) (drop (26 - 12) (calculateEMA prices 12)) (calculateEMA prices 26);
             m = last macdLineValues;
             s = last (calculateEMA macdLineValues 9)
         in Some \<lparr>macdLine = toFixed2 m, signalLine = toFixed2 s,
                   histogram = toFixed2 (m - s)\<rparr>))"
proof (cases "length cs < 35")
  case True
  then show ?thesis by (simp add: calculateMACD_def)
next
  case False
  define prices where "prices = map close cs"
  define sliced where "sliced = slice (int 26 - int 12) (calculateEMA prices 12)"
  define macd where
    "macd = map2 (-) (drop (26 - 12) (calculateEMA prices 12)) (calculateEMA prices 26)"
  have n: "35 \<le> length prices" using False by (simp add: prices_def)
  have sl: "sliced = drop 14 (calculateEMA prices 12)"
    by (simp add: sliced_def slice_def)
  have len: "length sliced = length (calculateEMA prices 26)"
    using n by (simp add: sl calculateEMA_length)
  have m: "map (\<lambda>index. sliced ! index - calculateEMA prices 26 ! index) [0..<length sliced]
             = macd"
    using map_index_diff[OF len] by (simp add: macd_def sl)
  have lm: "length macd = length prices - 25"
    using n by (simp add: macd_def calculateEMA_length)
  have ne: "macd \<noteq> []" using lm n by auto
  have "length (calculateEMA macd 9) = length macd - 9 + 1"
    using lm n by (simp add: calculateEMA_length)
  then have ls: "calculateEMA macd 9 \<noteq> []" by auto
  have "calculateMACD cs 12 26 9 =
      Some \<lparr>macdLine = toFixed2 (last macd),
            signalLine = toFixed2 (last (calculateEMA macd 9)),
            histogram = toFixed2 (last macd - last (calculateEMA macd 9))\<rparr>"
    using n lm m[unfolded sliced_def] last_elem_Some[OF ne] last_elem_Some[OF ls]
    unfolding calculateMACD_def Let_def prices_def[symmetric]
    by simp
  then show ?thesis using False by (simp add: Let_def macd_def prices_def)
qed

text \<open>
  Two facts that compute an EMA without running its loops: one more sample adds one more
  value by the recurrence, and the EMA of a constant series is constant.
\<close>

lemma calculateEMA_snoc:
  assumes "period \<le> length xs"
  shows "calculateEMA (xs @ [x]) period =
           calculateEMA xs period @
             [x * (2 / (real period + 1)) +
              last (calculateEMA xs period) * (1 - 2 / (real period + 1))]"
proof -
  let ?k = "2 / (real period + 1)"
  let ?step = "\<lambda>prices i emaArray.
     emaArray @ [prices ! i * ?k + emaArray ! (length emaArray - 1) * (1 - ?k)]"
  let ?seed = "[sum_list (take period xs) / real period]"
  have E: "calculateEMA xs period = fold (?step xs) [period..<length xs] ?seed"
    using assms by (simp add: calculateEMA_def Let_def sum_loop)
  have E': "calculateEMA (xs @ [x]) period =
              fold (?step (xs @ [x])) [period..<Suc (length xs)] ?seed"
    using assms by (simp add: calculateEMA_def Let_def sum_loop del: upt_Suc)
  have cong: "fold (?step (xs @ [x])) [period..<length xs] ?seed =
              fold (?step xs) [period..<length xs] ?seed"
    by (rule fold_cong) (auto simp: nth_append)
  have ne: "calculateEMA xs period \<noteq> []"
    using calculateEMA_length[of xs period] assms by auto
  have "calculateEMA (xs @ [x]) period =
          ?step (xs @ [x]) (length xs) (calculateEMA xs period)"
    unfolding E' E using assms cong by (simp add: upt_Suc_append)
  then show ?thesis using ne by (simp add: last_conv_nth)
qed

lemma calculateEMA_replicate:
  assumes "0 < period" and "period \<le> n"
  shows "calculateEMA (replicate n c) period = replicate (n - period + 1) c"
  using assms(2)
proof (induction n rule: dec_induct)
  case base
  have "sum_list (replicate period c) = real period * c" by (simp add: sum_list_replicate)
  then show ?case using assms(1) by (simp add: calculateEMA_def Let_def sum_loop)
next
  case (step n)
  have r: "replicate (Suc n) c = replicate n c @ [c]" by (simp add: replicate_append_same)
  have l: "last (replicate (n - period + 1) c) = c" by simp
  have a: "c * (2 / (real period + 1)) + c * (1 - 2 / (real period + 1)) = c"
    by (simp add: algebra_simps)
  have s: "Suc n - period + 1 = Suc (n - period + 1)" using step.hyps by simp
  have le: "period \<le> length (replicate n c)" using step.hyps by simp
  show ?case
    unfolding r calculateEMA_snoc[OF le] step.IH l a s
    by (simp add: replicate_append_same)
qed

text \<open>
  A series of 34 closes of 100 followed by one close of 100.2: the latest MACD value is
  \<open>28 / 1755 = 0.01595...\<close>, the latest signal value \<open>28 / 8775 = 0.00319...\<close>, and their
  difference \<open>0.01276...\<close>.
\<close>

lemma macd_step_lines:
  "last (map2 (-) (drop (26 - 12) (calculateEMA (replicate 34 100 @ [1002 / 10]) 12))
                  (calculateEMA (replicate 34 100 @ [1002 / 10]) 26)) = 28 / 1755 \<and>
   last (calculateEMA
           (map2 (-) (drop (26 - 12) (calculateEMA (replicate 34 100 @ [1002 / 10]) 12))
                     (calculateEMA (replicate 34 100 @ [1002 / 10]) 26)) 9) = 28 / 8775"
proof -
  have f: "calculateEMA (replicate 34 100 @ [1002 / 10]) 12 = replicate 23 100 @ [100 + 2 / 65]"
    by (simp add: calculateEMA_snoc calculateEMA_replicate)
  have s: "calculateEMA (replicate 34 100 @ [1002 / 10]) 26 = replicate 9 100 @ [100 + 2 / 135]"
    by (simp add: calculateEMA_snoc calculateEMA_replicate)
  have m: "map2 (-) (drop (26 - 12) (replicate 23 100 @ [100 + 2 / 65]))
                    (replicate 9 100 @ [100 + 2 / 135]) = replicate 9 0 @ [28 / 1755 :: real]"
    by (simp add: zip_replicate)
  have g: "calculateEMA (replicate 9 0 @ [28 / 1755]) 9 = [0, 28 / 8775]"
    by (simp add: calculateEMA_snoc calculateEMA_replicate)
  show ?thesis unfolding f s m g by simp
qed

lemma macd_step_rounding:
  "toFixed2 (28 / 1755) = 2 / 100" "toFixed2 (28 / 8775) = 0"
  "toFixed2 (28 / 1755 - 28 / 8775) = 1 / 100"
  by (simp_all add: toFixed2_def Let_def)

lemma macd_step_closes:
  "map close (map (\<lambda>i. \<lparr>time = int i, close = 100, volume = 0\<rparr>) [0..<34] @
              [\<lparr>time = 34, close = 1002 / 10, volume = 0\<rparr>]) = replicate 34 100 @ [1002 / 10]"
  by (simp add: comp_def map_replicate_const del: upt_Suc)

lemma macd_step_result:
  "calculateMACD (map (\<lambda>i. \<lparr>time = int i, close = 100, volume = 0\<rparr>) [0..<34] @
                  [\<lparr>time = 34, close = 1002 / 10, volume = 0\<rparr>]) 12 26 9 =
     Some \<lparr>macdLine = 2 / 100, signalLine = 0, histogram = 1 / 100\<rparr>"
proof -
  have "35 \<le> length (map (\<lambda>i. \<lparr>time = int i, close = 100, volume = 0\<rparr>) [0..<34] @
                  [\<lparr>time = 34, close = 1002 / 10, volume = 0\<rparr>])" by simp
  then show ?thesis
    using calculateMACD_unfolded[of "map (\<lambda>i. \<lparr>time = int i, close = 100, volume = 0\<rparr>) [0..<34] @
                  [\<lparr>time = 34, close = 1002 / 10, volume = 0\<rparr>]"] macd_step_lines
    unfolding macd_step_closes Let_def by (simp only: macd_step_rounding)
qed

text \<open>
  C3, as the code has it: with the default periods 12, 26 and 9, the MACD is absent exactly
  for a series of fewer than 35 candles. For 35 candles or more it is present: the MACD
  line is the fast EMA, cut at its front by \<open>26 - 12\<close> samples, minus the slow EMA; the
  signal line is the 9-period EMA of the MACD line; \<open>macdLine\<close> of the result is the latest
  MACD value rounded to two decimals, \<open>signalLine\<close> the latest signal value rounded to two
  decimals, and \<open>histogram\<close> the difference of the two unrounded values, rounded to two
  decimals.
\<close>

theorem calculateMACD_defaults:
  "(calculateMACD cs 12 26 9 = None \<longleftrightarrow> length cs < 35) \<and>
   (35 \<le> length cs \<longrightarrow>
      (let prices = map close cs;
           macdLineValues =
             map2 (-) (drop (26 - 12) (calculateEMA prices 12)) (calculateEMA prices 26);
           m = last macdLineValues;
           s = last (calculateEMA macdLineValues 9)
       in \<exists>r. calculateMACD cs 12 26 9 = Some r \<and>
               rounded2 m (macdLine r) \<and> rounded2 s (signalLine r) \<and>
               rounded2 (m - s) (histogram r)))"
proof (intro conjI impI)
  show "(calculateMACD cs 12 26 9 = None) = (length cs < 35)"
    using calculateMACD_unfolded[of cs] by (rule conjunct1)
next
  assume n: "35 \<le> length cs"
  define m where "m = last (map2 (-) (drop (26 - 12) (calculateEMA (map close cs) 12))
                               (calculateEMA (map close cs) 26))"
  define s where "s = last (calculateEMA (map2 (-) (drop (26 - 12) (calculateEMA (map close cs) 12))
                               (calculateEMA (map close cs) 26)) 9)"
  have v: "calculateMACD cs 12 26 9 =
             Some \<lparr>macdLine = toFixed2 m, signalLine = toFixed2 s, histogram = toFixed2 (m - s)\<rparr>"
    using calculateMACD_unfolded[of cs] n unfolding m_def s_def Let_def by blast
  have "rounded2 m (macdLine \<lparr>macdLine = toFixed2 m, signalLine = toFixed2 s,
                               histogram = toFixed2 (m - s)\<rparr>)"
    and "rounded2 s (signalLine \<lparr>macdLine = toFixed2 m, signalLine = toFixed2 s,
                               histogram = toFixed2 (m - s)\<rparr>)"
    and "rounded2 (m - s) (histogram \<lparr>macdLine = toFixed2 m, signalLine = toFixed2 s,
                               histogram = toFixed2 (m - s)\<rparr>)"
    by (simp_all add: toFixed2_rounded2)
  then have "\<exists>r. calculateMACD cs 12 26 9 = Some r \<and>
               rounded2 m (macdLine r) \<and> rounded2 s (signalLine r) \<and>
               rounded2 (m - s) (histogram r)"
    using v by blast
  then show "let prices = map close cs;
           macdLineValues =
             map2 (-) (drop (26 - 12) (calculateEMA prices 12)) (calculateEMA prices 26);
           m = last macdLineValues;
           s = last (calculateEMA macdLineValues 9)
       in \<exists>r. calculateMACD cs 12 26 9 = Some r \<and>
               rounded2 m (macdLine r) \<and> rounded2 s (signalLine r) \<and>
               rounded2 (m - s) (histogram r)"
    unfolding Let_def m_def s_def .
qed

theorem calculateMACD_defaults_witness:
  "calculateMACD (map (\<lambda>i. \<lparr>time = int i, close = 100, volume = 0\<rparr>) [0..<34]) 12 26 9 = None \<and>
   calculateMACD (map (\<lambda>i. \<lparr>time = int i, close = 100, volume = 0\<rparr>) [0..<34] @
                  [\<lparr>time = 34, close = 1002 / 10, volume = 0\<rparr>]) 12 26 9 =
     Some \<lparr>macdLine = 2 / 100, signalLine = 0, histogram = 1 / 100\<rparr> \<and>
   rounded2 (28 / 1755) (2 / 100) \<and> rounded2 (28 / 8775) 0 \<and>
   rounded2 (28 / 1755 - 28 / 8775) (1 / 100)"
proof -
  let ?flat = "map (\<lambda>i. \<lparr>time = int i, close = 100, volume = 0\<rparr>) [0..<34]"
  let ?step = "?flat @ [\<lparr>time = 34, close = 1002 / 10, volume = 0\<rparr>]"
  have none: "calculateMACD ?flat 12 26 9 = None"
    using calculateMACD_defaults[of ?flat] by simp
  have len: "35 \<le> length ?step" by simp
  have inst: "35 \<le> length ?step \<longrightarrow>
      (\<exists>r. calculateMACD ?step 12 26 9 = Some r \<and>
           rounded2 (28 / 1755) (macdLine r) \<and> rounded2 (28 / 8775) (signalLine r) \<and>
           rounded2 (28 / 1755 - 28 / 8775) (histogram r))"
    using calculateMACD_defaults[of ?step]
    unfolding macd_step_closes Let_def macd_step_lines[THEN conjunct1] macd_step_lines[THEN conjunct2]
    by (rule conjunct2)
  obtain r where r: "calculateMACD ?step 12 26 9 = Some r"
    and a: "rounded2 (28 / 1755) (macdLine r)" and b: "rounded2 (28 / 8775) (signalLine r)"
    and c: "rounded2 (28 / 1755 - 28 / 8775) (histogram r)"
    using inst len by blast
  have v: "r = \<lparr>macdLine = 2 / 100, signalLine = 0, histogram = 1 / 100\<rparr>"
    using r unfolding macd_step_result by simp
  show ?thesis using none macd_step_result a b c unfolding v by simp
qed

text \<open>
  C3, as stated, fails: the histogram of the result is not always \<open>macdLine - signalLine\<close>
  of the result. For the series of 34 closes of 100 and one of 100.2 the result is
  \<open>macdLine = 0.02\<close>, \<open>signalLine = 0\<close> and \<open>histogram = 0.01\<close>.
\<close>

theorem calculateMACD_histogram_counterexample:
  "histogram (the (calculateMACD (map (\<lambda>i. \<lparr>time = int i, close = 100, volume = 0\<rparr>) [0..<34] @
                  [\<lparr>time = 34, close = 1002 / 10, volume = 0\<rparr>]) 12 26 9)) \<noteq>
   macdLine (the (calculateMACD (map (\<lambda>i. \<lparr>time = int i, close = 100, volume = 0\<rparr>) [0..<34] @
                  [\<lparr>time = 34, close = 1002 / 10, volume = 0\<rparr>]) 12 26 9)) -
   signalLine (the (calculateMACD (map (\<lambda>i. \<lparr>time = int i, close = 100, volume = 0\<rparr>) [0..<34] @
                  [\<lparr>time = 34, close = 1002 / 10, volume = 0\<rparr>]) 12 26 9))"
  unfolding macd_step_result by simp

lemma deltas_length: "length (deltas series) = length series - 1"
  by (simp add: deltas_def)

lemma deltas_nth:
  assumes "i + 1 < length series"
  shows "deltas series ! i = series ! (i + 1) - series ! i"
proof -
  have "i < length [0..<length series - 1]" using assms by simp
  then show ?thesis unfolding deltas_def by (simp del: upt_Suc)
qed

lemma rsi_first_loop:
  assumes "m < length prices"
  shows "fold (\<lambda>i (gains, losses).
                      let change = prices ! i - prices ! (i - 1)
                      in if change > 0 then (gains + change, losses)
                         else (gains, losses - change))
                [1..<m + 1] (g0, l0) =
         (g0 + sum_list (map gain (take m (deltas prices))),
          l0 + sum_list (map loss (take m (deltas prices))))"
  using assms
proof (induction m)
  case 0
  show ?case by simp
next
  case (Suc m)
  have m: "m < length (deltas prices)" using Suc.prems by (simp add: deltas_length)
  have d: "deltas prices ! m = prices ! Suc m - prices ! m"
    using Suc.prems deltas_nth[of m prices] by simp
  show ?case
    using Suc m d by (simp add: take_Suc_conv_app_nth Let_def gain_def loss_def)
qed

lemma rsi_second_loop:
  assumes "p + 1 \<le> b" and "b \<le> length prices"
  shows "fold (\<lambda>i (avgGain, avgLoss).
                      let change = prices ! i - prices ! (i - 1);
                          currentGain = (if change > 0 then change else 0);
                          currentLoss = (if change < 0 then - change else 0)
                      in ((avgGain * (real p - 1) + currentGain) / real p,
                          (avgLoss * (real p - 1) + currentLoss) / real p))
                [p + 1..<b] (g0, l0) =
         (foldl (wilder p) g0 (map gain (take (b - (p + 1)) (drop p (deltas prices)))),
          foldl (wilder p) l0 (map loss (take (b - (p + 1)) (drop p (deltas prices)))))"
  using assms
proof (induction b rule: dec_induct)
  case base
  show ?case by simp
next
  case (step n)
  have n: "n - (p + 1) < length (drop p (deltas prices))"
    using step.hyps step.prems by (simp add: deltas_length)
  have d: "drop p (deltas prices) ! (n - (p + 1)) = prices ! n - prices ! (n - 1)"
    using step.hyps step.prems deltas_nth[of "n - 1" prices] by (simp add: deltas_length)
  have s: "Suc n - (p + 1) = Suc (n - (p + 1))" using step.hyps by simp
  show ?case
    using step n d unfolding s
    by (simp add: take_Suc_conv_app_nth Let_def gain_def loss_def wilder_def)
qed

text \<open>The two loops of \<open>calculateRSI\<close> compute the averages of \<open>RSI_averages\<close>.\<close>

lemma calculateRSI_present:
  assumes "period < length cs"
  shows "calculateRSI cs period =
           (if snd (RSI_averages (map close cs) period) = 0 then Some 100
            else Some (toFixed2 (100 - 100 / (1 + fst (RSI_averages (map close cs) period) /
                                                   snd (RSI_averages (map close cs) period)))))"
proof -
  have lt: "period < length (map close cs)" using assms by simp
  show ?thesis
    using assms rsi_first_loop[OF lt, of 0 0]
      rsi_second_loop[of period "length (map close cs)" "map close cs"]
    by (simp add: calculateRSI_def RSI_averages_def Let_def deltas_length del: upt_Suc)
qed

lemma gain_nonneg: "0 \<le> gain d" and loss_nonneg: "0 \<le> loss d"
  by (simp_all add: gain_def loss_def)

lemma wilder_nonneg:
  assumes "0 < p" and "0 \<le> a" and "\<forall>c \<in> set cs. 0 \<le> c"
  shows "0 \<le> foldl (wilder p) a cs"
  using assms(2,3)
proof (induction cs arbitrary: a)
  case Nil
  then show ?case by simp
next
  case (Cons c cs)
  have "0 \<le> a * (real p - 1)" using Cons.prems(1) assms(1) by simp
  then have "0 \<le> wilder p a c" using Cons.prems(2) assms(1) by (simp add: wilder_def)
  then show ?case using Cons.IH Cons.prems(2) by simp
qed

lemma RSI_averages_nonneg:
  assumes "0 < p"
  shows "0 \<le> fst (RSI_averages series p)" and "0 \<le> snd (RSI_averages series p)"
proof -
  have g: "0 \<le> sum_list (map gain (take p (deltas series))) / real p"
    by (intro divide_nonneg_nonneg sum_list_nonneg) (auto simp: gain_nonneg)
  have l: "0 \<le> sum_list (map loss (take p (deltas series))) / real p"
    by (intro divide_nonneg_nonneg sum_list_nonneg) (auto simp: loss_nonneg)
  show "0 \<le> fst (RSI_averages series p)"
    unfolding RSI_averages_def Let_def fst_conv
    by (rule wilder_nonneg[OF assms g]) (auto simp: gain_nonneg)
  show "0 \<le> snd (RSI_averages series p)"
    unfolding RSI_averages_def Let_def snd_conv
    by (rule wilder_nonneg[OF assms l]) (auto simp: loss_nonneg)
qed

lemma rsi_formula_bounds:
  fixes g l :: real
  assumes "0 \<le> g" and "0 < l"
  shows "0 \<le> 100 - 100 / (1 + g / l)" and "100 - 100 / (1 + g / l) < 100"
proof -
  have d: "1 \<le> 1 + g / l" using assms by simp
  then have p: "0 < 1 + g / l" by linarith
  have "100 / (1 + g / l) \<le> 100 \<longleftrightarrow> 100 \<le> 100 * (1 + g / l)"
    using p by (rule pos_divide_le_eq)
  then have "100 / (1 + g / l) \<le> 100" using d by simp
  then show "0 \<le> 100 - 100 / (1 + g / l)" by simp
  have "0 < 100 / (1 + g / l)" using d by simp
  then show "100 - 100 / (1 + g / l) < 100" by simp
qed

text \<open>
  C4: the RSI is absent exactly when the series has at most \<open>period\<close> candles. Otherwise,
  for a positive period, take the initial average gain and loss over the first \<open>period\<close>
  deltas and apply Wilder smoothing \<open>(avg * (period - 1) + current) / period\<close> over the
  remaining deltas (\<open>RSI_averages\<close>): the RSI is exactly 100 when the final average loss is
  zero, and otherwise it is \<open>100 - 100 / (1 + avgGain / avgLoss)\<close> rounded to two decimals,
  that is the whole number of hundredths nearest to it.
\<close>

theorem calculateRSI_spec:
  "(calculateRSI cs period = None \<longleftrightarrow> length cs \<le> period) \<and>
   (0 < period \<and> period < length cs \<longrightarrow>
      (snd (RSI_averages (map close cs) period) = 0 \<longrightarrow> calculateRSI cs period = Some 100) \<and>
      (snd (RSI_averages (map close cs) period) \<noteq> 0 \<longrightarrow>
         (\<exists>r. calculateRSI cs period = Some r \<and>
              rounds_to_2dp
                (100 - 100 / (1 + fst (RSI_averages (map close cs) period) /
                                  snd (RSI_averages (map close cs) period))) r)))"
proof (intro conjI impI)
  show "(calculateRSI cs period = None) = (length cs \<le> period)"
    by (simp add: calculateRSI_def Let_def split: prod.splits)
next
  assume a: "0 < period \<and> period < length cs" and z: "snd (RSI_averages (map close cs) period) = 0"
  show "calculateRSI cs period = Some 100"
    using a z by (simp add: calculateRSI_present)
next
  assume a: "0 < period \<and> period < length cs" and z: "snd (RSI_averages (map close cs) period) \<noteq> 0"
  let ?g = "fst (RSI_averages (map close cs) period)"
  let ?l = "snd (RSI_averages (map close cs) period)"
  have g: "0 \<le> ?g" and l: "0 < ?l"
    using RSI_averages_nonneg[of period "map close cs"] a z by auto
  have "0 \<le> 100 - 100 / (1 + ?g / ?l)" and "100 - 100 / (1 + ?g / ?l) < 100"
    by (rule rsi_formula_bounds[OF g l])+
  then have "\<bar>100 - 100 / (1 + ?g / ?l)\<bar> < 100" by linarith
  also have "(100 :: real) < 10 ^ 21" by simp
  finally have "\<bar>100 - 100 / (1 + ?g / ?l)\<bar> < 10 ^ 21" .
  then have "rounds_to_2dp (100 - 100 / (1 + ?g / ?l)) (toFixed2 (100 - 100 / (1 + ?g / ?l)))"
    by (rule toFixed2_rounds)
  moreover have "calculateRSI cs period = Some (toFixed2 (100 - 100 / (1 + ?g / ?l)))"
    using a z by (simp add: calculateRSI_present)
  ultimately show "\<exists>r. calculateRSI cs period = Some r \<and>
              rounds_to_2dp (100 - 100 / (1 + ?g / ?l)) r" by blast
qed

theorem calculateRSI_spec_witness:
  "calculateRSI [\<lparr>time = 0, close = 1, volume = 7\<rparr>, \<lparr>time = 1, close = 2, volume = 7\<rparr>,
                 \<lparr>time = 2, close = 1, volume = 7\<rparr>, \<lparr>time = 3, close = 3, volume = 7\<rparr>] 2
     = Some (8333 / 100) \<and>
   calculateRSI [\<lparr>time = 0, close = 1, volume = 7\<rparr>, \<lparr>time = 1, close = 2, volume = 7\<rparr>,
                 \<lparr>time = 2, close = 4, volume = 7\<rparr>] 2 = Some 100 \<and>
   calculateRSI [\<lparr>time = 0, close = 1, volume = 7\<rparr>, \<lparr>time = 1, close = 2, volume = 7\<rparr>] 2
     = None"
proof -
  let ?A = "[\<lparr>time = 0, close = 1, volume = 7\<rparr>, \<lparr>time = 1, close = 2, volume = 7\<rparr>,
             \<lparr>time = 2, close = 1, volume = 7\<rparr>, \<lparr>time = 3, close = 3, volume = 7\<rparr>]"
  let ?B = "[\<lparr>time = 0, close = 1, volume = 7\<rparr>, \<lparr>time = 1, close = 2, volume = 7\<rparr>,
             \<lparr>time = 2, close = 4, volume = 7\<rparr>]"
  let ?C = "[\<lparr>time = 0, close = 1, volume = 7\<rparr>, \<lparr>time = 1, close = 2, volume = 7\<rparr>]"
  have avA: "RSI_averages (map close ?A) 2 = (5 / 4, 1 / 4)"
    by (simp add: RSI_averages_def deltas_def gain_def loss_def wilder_def Let_def upt_rec)
  have avB: "RSI_averages (map close ?B) 2 = (3 / 2, 0)"
    by (simp add: RSI_averages_def deltas_def gain_def loss_def wilder_def Let_def upt_rec)
  have "\<exists>r. calculateRSI ?A 2 = Some r \<and> rounds_to_2dp (100 - 100 / (1 + (5 / 4) / (1 / 4))) r"
    using calculateRSI_spec[of ?A 2] unfolding avA fst_conv snd_conv by simp
  then obtain r where r: "calculateRSI ?A 2 = Some r" and rd: "rounds_to_2dp (250 / 3) r"
    by auto
  have "(8333 / 100 :: real) = real_of_int 8333 / 100" by simp
  then have "\<exists>n::int. (8333 / 100 :: real) = real_of_int n / 100" by (rule exI)
  then have "rounds_to_2dp (250 / 3) (8333 / 100)"
    unfolding rounds_to_2dp_def by simp
  then have "r = 8333 / 100" using rd by (rule rounds_to_2dp_unique[rotated])
  then have a: "calculateRSI ?A 2 = Some (8333 / 100)" using r by simp
  have b: "calculateRSI ?B 2 = Some 100"
    using calculateRSI_spec[of ?B 2] unfolding avB fst_conv snd_conv by simp
  have c: "calculateRSI ?C 2 = None"
    using calculateRSI_spec[of ?C 2] by simp
  show ?thesis using a b c by blast
qed

section \<open>Properties of the store\<close>

lemma map_of_setStock:
  "map_of (setStock k f d) k' = (if k' = k then map_option f (map_of d k) else map_of d k')"
  by (auto simp: setStock_def update_conv' split: option.splits)

lemma keys_setStock: "map fst (setStock k f d) = map fst d"
  by (auto simp: setStock_def update_keys map_of_eq_None_iff split: option.splits)

lemma tick_updater_keys: "map fst (fst (tick_updater d)) = map fst d"
  by (induction d rule: tick_updater.induct) (auto simp: Let_def split: prod.splits)

lemma tick_updater_map_of:
  "map_of (fst (tick_updater d)) k =
     map_option (\<lambda>s. if status s = ONLINE
                      then (if countdown s - 1 \<le> 0 then s\<lparr>status := REFRESHING, countdown := 0\<rparr>
                            else s\<lparr>countdown := countdown s - 1\<rparr>)
                      else s) (map_of d k)"
  by (induction d rule: tick_updater.induct) (auto simp: Let_def split: prod.splits)

lemma tick_updater_pushed:
  "snd (tick_updater d) =
     map fst (filter (\<lambda>(k, s). status s = ONLINE \<and> countdown s - 1 \<le> 0) d)"
  by (induction d rule: tick_updater.induct) (auto simp: Let_def split: prod.splits)

lemma tick_store: "fst (tick t d) = fst (tick_updater d)"
  by (simp add: tick_def Let_def split: prod.splits)

lemma tick_symbolsToFetch:
  "snd (tick t d) = (case t of InsideSetState \<Rightarrow> snd (tick_updater d) | AtNextRender \<Rightarrow> [])"
  by (cases t) (simp_all add: tick_def Let_def split: prod.splits)

lemma initialState_fold:
  "(\<forall>k s. map_of acc k = Some s \<longrightarrow> P k s) \<Longrightarrow>
   (\<forall>k. P k \<lparr>symbol = k, candles = [], signal = None, countdown = i, status = OFFLINE,
              chatHistory = [], error = None\<rparr>) \<Longrightarrow>
   map_of (fold (\<lambda>symbol initialState.
             AList.update symbol
               \<lparr>symbol = symbol, candles = [], signal = None,
                countdown = i, status = OFFLINE,
                chatHistory = [], error = None\<rparr>
               initialState) ks acc) k = Some s \<Longrightarrow> P k s"
proof (induction ks arbitrary: acc)
  case Nil
  then show ?case by simp
next
  case (Cons a ks)
  show ?case
    by (rule Cons.IH[OF _ Cons.prems(2)]) (use Cons.prems in \<open>auto simp: update_conv'\<close>)
qed

lemma initialState_distinct_fold:
  "distinct (map fst acc) \<Longrightarrow> distinct (map fst (fold (\<lambda>symbol initialState.
             AList.update symbol (f symbol) initialState) ks acc))"
  by (induction ks arbitrary: acc) (auto simp: distinct_update)


lemma store_inv_setStock:
  assumes "store_inv d" and "\<And>s. symbol (f s) = symbol s"
  shows "store_inv (setStock k f d)"
  using assms unfolding store_inv_def
  by (fastforce simp: map_of_setStock keys_setStock split: if_splits)

lemma online_positive_setStock:
  assumes "online_positive d"
    and "\<And>s. (status s = ONLINE \<longrightarrow> 1 \<le> countdown s) \<Longrightarrow> status (f s) = ONLINE
            \<Longrightarrow> 1 \<le> countdown (f s)"
  shows "online_positive (setStock k f d)"
  using assms unfolding online_positive_def
  by (fastforce simp: map_of_setStock split: if_splits)

lemma reachable_store_inv:
  assumes "reachable STOCKS i d"
  shows "store_inv d"
  using assms
proof (induction rule: reachable.induct)
  case r_init
  have "distinct (map fst (initialState STOCKS i))"
    unfolding initialState_def by (rule initialState_distinct_fold) simp
  moreover have "\<And>k s. map_of (initialState STOCKS i) k = Some s \<Longrightarrow> symbol s = k"
    unfolding initialState_def
    by (erule initialState_fold[rotated 2]) auto
  ultimately show ?case unfolding store_inv_def by blast
next
  case (r_begin d symb)
  then show ?case unfolding fetchSignal_begin_def by (intro store_inv_setStock) auto
next
  case (r_resolved d symb newCandles sig)
  then show ?case unfolding fetchSignal_resolved_def by (intro store_inv_setStock) auto
next
  case (r_catch d symb err)
  then show ?case unfolding fetchSignal_catch_def Let_def by (intro store_inv_setStock) auto
next
  case (r_chat d symb history)
  then show ?case unfolding setChatHistory_def by (intro store_inv_setStock) auto
next
  case (r_tick d)
  then show ?case unfolding store_inv_def
    by (auto simp: tick_updater_keys tick_updater_map_of split: if_splits)
qed

lemma reachable_online_positive:
  assumes "reachable STOCKS i d" and "1 \<le> i"
  shows "online_positive d"
  using assms
proof (induction rule: reachable.induct)
  case r_init
  have "\<And>k s. map_of (initialState STOCKS i) k = Some s \<Longrightarrow> status s = OFFLINE"
    unfolding initialState_def
    by (erule initialState_fold[rotated 2]) auto
  then show ?case unfolding online_positive_def by fastforce
next
  case (r_begin d symb)
  then show ?case unfolding fetchSignal_begin_def by (intro online_positive_setStock) auto
next
  case (r_resolved d symb newCandles sig)
  then show ?case unfolding fetchSignal_resolved_def by (intro online_positive_setStock) auto
next
  case (r_catch d symb err)
  then show ?case unfolding fetchSignal_catch_def Let_def by (intro online_positive_setStock) auto
next
  case (r_chat d symb history)
  then show ?case unfolding setChatHistory_def by (intro online_positive_setStock) auto
next
  case (r_tick d)
  then show ?case unfolding online_positive_def
    by (auto simp: tick_updater_map_of split: if_splits)
qed

lemma getStockSignal_throws_AIError:
  assumes "getStockSignal outcome = Inl err"
  shows "\<exists>m u. err = AIError m u \<and> u \<in> userMessages"
proof -
  obtain e where "err = getStockSignal_catch e"
    using assms by (auto simp: getStockSignal_def split: sum.splits)
  then show ?thesis
    by (cases e)
      (simp_all add: getStockSignal_catch_def handleApiError_def Let_def userMessages_def)
qed

text \<open>
  C2: when the provider call of a refresh fails, \<open>getStockSignal\<close> throws an \<open>AIError\<close>
  whose user-facing message is one of the five classified messages, and the failure
  handler of \<open>fetchSignal\<close> turns the record of the symbol into the same record with status
  \<open>OFFLINE\<close>, countdown reset to the refresh interval and the error set to that message:
  candles and signal are as they were, both against the store the handler finds and
  against the store before the refresh attempt began.
\<close>

theorem fetchSignal_failure:
  assumes "map_of data symb = Some s" and "getStockSignal outcome = Inl err"
  shows "\<exists>m u. err = AIError m u \<and> u \<in> userMessages \<and>
           map_of (fetchSignal_catch interval symb err data) symb =
             Some (s\<lparr>status := OFFLINE, countdown := interval, error := Some u\<rparr>) \<and>
           map_of (fetchSignal_catch interval symb err (fetchSignal_begin symb data)) symb =
             Some (s\<lparr>status := OFFLINE, countdown := interval, error := Some u\<rparr>) \<and>
           candles (s\<lparr>status := OFFLINE, countdown := interval, error := Some u\<rparr>) = candles s \<and>
           signal (s\<lparr>status := OFFLINE, countdown := interval, error := Some u\<rparr>) = signal s"
proof -
  obtain m u where e: "err = AIError m u" and u: "u \<in> userMessages"
    using getStockSignal_throws_AIError[OF assms(2)] by blast
  have a: "map_of (fetchSignal_catch interval symb err data) symb =
             Some (s\<lparr>status := OFFLINE, countdown := interval, error := Some u\<rparr>)"
    using assms(1) by (simp add: fetchSignal_catch_def e map_of_setStock)
  have b: "map_of (fetchSignal_catch interval symb err (fetchSignal_begin symb data)) symb =
             Some (s\<lparr>status := OFFLINE, countdown := interval, error := Some u\<rparr>)"
    using assms(1) by (simp add: fetchSignal_catch_def fetchSignal_begin_def e map_of_setStock)
  have c: "candles (s\<lparr>status := OFFLINE, countdown := interval, error := Some u\<rparr>) = candles s"
    and d: "signal (s\<lparr>status := OFFLINE, countdown := interval, error := Some u\<rparr>) = signal s"
    by simp_all
  show ?thesis using e u a b c d by blast
qed

theorem fetchSignal_failure_witness:
  "map_of (fetchSignal_catch 30 ''TCS''
             (AIError ''[400] API key not valid.''
                ''Invalid API Key. Please ensure it is set correctly.'')
             (fetchSignal_begin ''TCS''
                (fetchSignal_resolved 30 ''TCS'' [\<lparr>time = 0, close = 101, volume = 5\<rparr>]
                   \<lparr>type = BUY, reason = ''momentum'', news = []\<rparr>
                   (initialState [''TCS'', ''INFY''] 30)))) ''TCS'' =
     Some \<lparr>symbol = ''TCS'', candles = [\<lparr>time = 0, close = 101, volume = 5\<rparr>],
           signal = Some \<lparr>type = BUY, reason = ''momentum'', news = []\<rparr>, countdown = 30,
           status = OFFLINE, chatHistory = [],
           error = Some ''Invalid API Key. Please ensure it is set correctly.''\<rparr>"
proof -
  let ?d = "fetchSignal_resolved 30 ''TCS'' [\<lparr>time = 0, close = 101, volume = 5\<rparr>]
              \<lparr>type = BUY, reason = ''momentum'', news = []\<rparr>
              (initialState [''TCS'', ''INFY''] 30)"
  let ?s = "\<lparr>symbol = ''TCS'', candles = [\<lparr>time = 0, close = 101, volume = 5\<rparr>],
            signal = Some \<lparr>type = BUY, reason = ''momentum'', news = []\<rparr>, countdown = 30,
            status = ONLINE, chatHistory = [], error = None\<rparr>"
  have m: "map_of ?d ''TCS'' = Some ?s"
    by (simp add: initialState_def fetchSignal_resolved_def setStock_def)
  have g: "getStockSignal (Rejects (Error ''[400] API key not valid.'')) =
           Inl (AIError ''[400] API key not valid.''
                  ''Invalid API Key. Please ensure it is set correctly.'')"
    by (simp add: getStockSignal_def getStockSignal_catch_def handleApiError_def Let_def
          toLowerCase_def toLowerCase_char_def str_includes_def sublist_Cons_right)
  obtain m' u where e: "AIError ''[400] API key not valid.''
                  ''Invalid API Key. Please ensure it is set correctly.'' = AIError m' u"
    and r: "map_of (fetchSignal_catch 30 ''TCS'' (AIError ''[400] API key not valid.''
                ''Invalid API Key. Please ensure it is set correctly.'')
             (fetchSignal_begin ''TCS'' ?d)) ''TCS'' =
             Some (?s\<lparr>status := OFFLINE, countdown := 30, error := Some u\<rparr>)"
    using fetchSignal_failure[OF m g, of 30] by blast
  have "u = ''Invalid API Key. Please ensure it is set correctly.''"
    using e by (simp only: js_error.inject)
  then show ?thesis using r by simp
qed

text \<open>
  The classification that \<open>getStockSignal\<close> makes, test by test in the order of the code,
  and what becomes of a parsed value other than \<open>null\<close>: it is returned, or it fails the
  structure check and gets the generic message.
\<close>

lemma handleApiError_invalid_structure:
  "handleApiError (Error ''Invalid JSON structure received from AI.'') =
     AIError ''Invalid JSON structure received from AI.''
       ''An unexpected error occurred with the AI service.''"
  by (simp add: handleApiError_def Let_def toLowerCase_def toLowerCase_char_def str_includes_def
      sublist_Cons_right)

lemma validate_signal_non_null:
  assumes "v \<noteq> JNull"
  shows "validate_signal v = Inr v \<or>
         validate_signal v = Inl (Error ''Invalid JSON structure received from AI.'')"
  using assms by (cases v) (simp_all add: validate_signal_def)

lemma getStockSignal_missing_fields:
  assumes "v \<noteq> JNull"
  shows "getStockSignal (Json v) = Inr v \<or>
         getStockSignal (Json v) =
           Inl (AIError ''Invalid JSON structure received from AI.''
                  ''An unexpected error occurred with the AI service.'')"
proof -
  from validate_signal_non_null[OF assms] show ?thesis
  proof
    assume "validate_signal v = Inr v"
    then show ?thesis by (simp add: getStockSignal_def)
  next
    assume "validate_signal v = Inl (Error ''Invalid JSON structure received from AI.'')"
    then have "getStockSignal (Json v) =
        Inl (handleApiError (Error ''Invalid JSON structure received from AI.''))"
      by (simp add: getStockSignal_def getStockSignal_catch_def)
    then have "getStockSignal (Json v) =
        Inl (AIError ''Invalid JSON structure received from AI.''
               ''An unexpected error occurred with the AI service.'')"
      unfolding handleApiError_invalid_structure .
    then show ?thesis by (rule disjI2)
  qed
qed

lemma getStockSignal_table:
  "getStockSignal (NotJson m) =
     Inl (AIError m ''AI returned an invalid response format. Please try refreshing.'')"
  "getStockSignal (Rejects (SyntaxError m)) =
     Inl (AIError m ''AI returned an invalid response format. Please try refreshing.'')"
  "str_includes (toLowerCase m) ''api key not valid'' \<Longrightarrow>
     getStockSignal (Rejects (Error m)) =
       Inl (AIError m ''Invalid API Key. Please ensure it is set correctly.'')"
  "\<not> str_includes (toLowerCase m) ''api key not valid'' \<Longrightarrow>
   str_includes (toLowerCase m) ''429'' \<or> str_includes (toLowerCase m) ''resource_exhausted'' \<Longrightarrow>
     getStockSignal (Rejects (Error m)) =
       Inl (AIError m ''API rate limit reached. Please wait and try again.'')"
  "\<not> str_includes (toLowerCase m) ''api key not valid'' \<Longrightarrow>
   \<not> str_includes (toLowerCase m) ''429'' \<Longrightarrow>
   \<not> str_includes (toLowerCase m) ''resource_exhausted'' \<Longrightarrow>
     getStockSignal (Rejects (TypeError m)) =
       Inl (AIError m ''Network error. Please check your internet connection.'')"
  "\<not> str_includes (toLowerCase m) ''api key not valid'' \<Longrightarrow>
   \<not> str_includes (toLowerCase m) ''429'' \<Longrightarrow>
   \<not> str_includes (toLowerCase m) ''resource_exhausted'' \<Longrightarrow>
     getStockSignal (Rejects (Error m)) =
       Inl (AIError m ''An unexpected error occurred with the AI service.'')"
  by (simp_all add: getStockSignal_def getStockSignal_catch_def handleApiError_def Let_def)

text \<open>
  C7, at the provider response \<open>null\<close>: the text parses, the parsed value has none of the
  properties \<open>type\<close>, \<open>reason\<close> and \<open>news\<close>, and reading \<open>type\<close> of it throws a \<open>TypeError\<close>,
  which \<open>handleApiError\<close> classifies as a network error, where a parsed object without
  the properties gets the generic message.
\<close>

theorem getStockSignal_null_response:
  "getStockSignal (Json JNull) =
     Inl (AIError ''Cannot read properties of null (reading type)''
            ''Network error. Please check your internet connection.'') \<and>
   getStockSignal (Json (JObject [])) =
     Inl (AIError ''Invalid JSON structure received from AI.''
            ''An unexpected error occurred with the AI service.'')"
  by (simp add: getStockSignal_def validate_signal_def getStockSignal_catch_def
      handleApiError_def Let_def toLowerCase_def toLowerCase_char_def str_includes_def
      sublist_Cons_right)

text \<open>
  What one tick does to the store and what it hands over, for every reachable store (with
  a positive refresh interval) and whenever React runs the updater: the tick takes one off
  the countdown of each \<open>ONLINE\<close> record and leaves every other record as it is; an
  \<open>ONLINE\<close> record whose countdown was 1 becomes \<open>REFRESHING\<close>; no other record changes
  its status; only status and countdown change. A symbol is handed to the scheduler only
  if the updater ran inside \<open>setStockData\<close>, and then exactly when its record turned
  \<open>REFRESHING\<close>.
\<close>

lemma tick_state:
  assumes "0 < interval" and "reachable STOCKS interval data" and "map_of data symb = Some s"
  shows "\<exists>s'. map_of (fst (tick t data)) symb = Some s' \<and>
           s' = s\<lparr>status := status s', countdown := countdown s'\<rparr> \<and>
           (status s = ONLINE \<longrightarrow> countdown s' = countdown s - 1) \<and>
           (status s \<noteq> ONLINE \<longrightarrow> countdown s' = countdown s) \<and>
           (status s = ONLINE \<and> countdown s = 1 \<longrightarrow> status s' = REFRESHING) \<and>
           (\<not> (status s = ONLINE \<and> countdown s = 1) \<longrightarrow> status s' = status s) \<and>
           (symb \<in> set (snd (tick t data)) \<longleftrightarrow>
              t = InsideSetState \<and> status s = ONLINE \<and> countdown s = 1)"
proof -
  have dist: "distinct (map fst data)"
    using reachable_store_inv[OF assms(2)] unfolding store_inv_def by simp
  have pos: "status s = ONLINE \<Longrightarrow> 1 \<le> countdown s"
    using reachable_online_positive[OF assms(2)] assms(1,3) unfolding online_positive_def by auto
  have mem: "\<And>u. (symb, u) \<in> set data \<longleftrightarrow> u = s"
    using dist assms(3) by (metis map_of_eq_Some_iff option.inject)
  have pushed: "symb \<in> set (snd (tick_updater data)) \<longleftrightarrow>
                  status s = ONLINE \<and> countdown s - 1 \<le> 0"
    unfolding tick_updater_pushed using mem by force
  have fetch: "symb \<in> set (snd (tick t data)) \<longleftrightarrow>
                 t = InsideSetState \<and> status s = ONLINE \<and> countdown s - 1 \<le> 0"
    unfolding tick_symbolsToFetch using pushed by (cases t) simp_all
  show ?thesis
  proof (cases "status s = ONLINE")
    case True
    then show ?thesis using pos fetch assms(3) by (simp add: tick_store tick_updater_map_of)
  next
    case False
    then show ?thesis using fetch assms(3) by (simp add: tick_store tick_updater_map_of)
  qed
qed

text \<open>
  C8, where the code departs from it. Take two symbols and a refresh interval of 1, and let
  the refresh of \<open>TCS\<close> have resolved: \<open>TCS\<close> is \<open>ONLINE\<close> with countdown 1. The tick turns
  \<open>TCS\<close> to \<open>REFRESHING\<close> with countdown 0 and leaves \<open>INFY\<close> as it is, whenever the updater
  runs. When React runs the updater at the next render, the tick hands nothing to the
  scheduler: the refresh of \<open>TCS\<close> that the transition announces is never submitted.
  Only when the updater runs inside \<open>setStockData\<close> is \<open>TCS\<close> handed over.
\<close>

theorem tick_hand_over_lost:
  "map_of (fetchSignal_resolved 1 ''TCS'' [] \<lparr>type = BUY, reason = ''momentum'', news = []\<rparr>
            (fetchSignal_begin ''TCS'' (initialState [''TCS'', ''INFY''] 1))) ''TCS'' =
     Some \<lparr>symbol = ''TCS'', candles = [],
           signal = Some \<lparr>type = BUY, reason = ''momentum'', news = []\<rparr>, countdown = 1,
           status = ONLINE, chatHistory = [], error = None\<rparr> \<and>
   fst (tick AtNextRender
         (fetchSignal_resolved 1 ''TCS'' [] \<lparr>type = BUY, reason = ''momentum'', news = []\<rparr>
            (fetchSignal_begin ''TCS'' (initialState [''TCS'', ''INFY''] 1)))) =
     [(''TCS'', \<lparr>symbol = ''TCS'', candles = [],
                 signal = Some \<lparr>type = BUY, reason = ''momentum'', news = []\<rparr>, countdown = 0,
                 status = REFRESHING, chatHistory = [], error = None\<rparr>),
      (''INFY'', \<lparr>symbol = ''INFY'', candles = [], signal = None, countdown = 1,
                  status = OFFLINE, chatHistory = [], error = None\<rparr>)] \<and>
   snd (tick AtNextRender
         (fetchSignal_resolved 1 ''TCS'' [] \<lparr>type = BUY, reason = ''momentum'', news = []\<rparr>
            (fetchSignal_begin ''TCS'' (initialState [''TCS'', ''INFY''] 1)))) = [] \<and>
   tick InsideSetState
         (fetchSignal_resolved 1 ''TCS'' [] \<lparr>type = BUY, reason = ''momentum'', news = []\<rparr>
            (fetchSignal_begin ''TCS'' (initialState [''TCS'', ''INFY''] 1))) =
     (fst (tick AtNextRender
         (fetchSignal_resolved 1 ''TCS'' [] \<lparr>type = BUY, reason = ''momentum'', news = []\<rparr>
            (fetchSignal_begin ''TCS'' (initialState [''TCS'', ''INFY''] 1)))), [''TCS''])"
proof -
  have d: "fetchSignal_resolved 1 ''TCS'' [] \<lparr>type = BUY, reason = ''momentum'', news = []\<rparr>
            (fetchSignal_begin ''TCS'' (initialState [''TCS'', ''INFY''] 1)) =
     [(''TCS'', \<lparr>symbol = ''TCS'', candles = [],
                 signal = Some \<lparr>type = BUY, reason = ''momentum'', news = []\<rparr>, countdown = 1,
                 status = ONLINE, chatHistory = [], error = None\<rparr>),
      (''INFY'', \<lparr>symbol = ''INFY'', candles = [], signal = None, countdown = 1,
                  status = OFFLINE, chatHistory = [], error = None\<rparr>)]"
    by (simp add: initialState_def fetchSignal_begin_def fetchSignal_resolved_def setStock_def)
  show ?thesis unfolding d by (simp add: tick_def)
qed

lemma update_fresh: "k \<notin> fst ` set al \<Longrightarrow> AList.update k v al = al @ [(k, v)]"
  by (induction al) auto

lemma sentiment_fold:
  assumes "\<forall>s \<in> set xs. signal s \<noteq> None"
    and "distinct (map symbol xs)"
    and "symbol ` set xs \<inter> fst ` set acc = {}"
  shows "fold (\<lambda>s acc. case signal s of
                      None \<Rightarrow> acc
                    | Some sig \<Rightarrow> AList.update (symbol s) (type sig) acc) xs acc =
         acc @ map (\<lambda>s. (symbol s, type (the (signal s)))) xs"
  using assms
proof (induction xs arbitrary: acc)
  case Nil
  show ?case by simp
next
  case (Cons x xs)
  obtain sig where sig: "signal x = Some sig" using Cons.prems(1) by auto
  have fresh: "symbol x \<notin> fst ` set acc" using Cons.prems(3) by auto
  have step: "AList.update (symbol x) (type sig) acc = acc @ [(symbol x, type sig)]"
    by (rule update_fresh[OF fresh])
  have disj: "symbol ` set xs \<inter> fst ` set (acc @ [(symbol x, type sig)]) = {}"
    using Cons.prems(2,3) by auto
  show ?case
    using Cons.IH[OF _ _ disj] Cons.prems(1,2) by (simp add: sig step)
qed

lemma store_inv_symbol:
  assumes "store_inv d"
  shows "\<forall>x \<in> set d. symbol (snd x) = fst x"
proof
  fix x assume "x \<in> set d"
  then have "(fst x, snd x) \<in> set d" by simp
  moreover have "distinct (map fst d)" using assms unfolding store_inv_def by simp
  ultimately have "map_of d (fst x) = Some (snd x)" by (rule map_of_is_SomeI[rotated])
  then show "symbol (snd x) = fst x" using assms unfolding store_inv_def by blast
qed

lemma map_symbol_values:
  assumes "\<forall>x \<in> set d. symbol (snd x) = fst x"
  shows "map symbol (map snd d) = map fst d"
  using assms by (induction d) simp_all

lemma map_pairs_values:
  assumes "\<forall>x \<in> set d. symbol (snd x) = fst x"
  shows "map (\<lambda>s. (symbol s, type (the (signal s)))) (filter q (map snd d)) =
         map (\<lambda>(k, s). (k, type (the (signal s)))) (filter (\<lambda>(k, s). q s) d)"
  using assms by (induction d) (simp_all add: case_prod_beta)

lemma signalsForSentiment_eq:
  assumes "store_inv d"
  shows "signalsForSentiment d =
     map (\<lambda>(k, s). (k, type (the (signal s))))
       (filter (\<lambda>(k, s). signal s \<noteq> None \<and> status s = ONLINE) d)"
proof -
  let ?q = "\<lambda>s. signal s \<noteq> None \<and> status s = ONLINE"
  have sy: "\<forall>x \<in> set d. symbol (snd x) = fst x" by (rule store_inv_symbol[OF assms])
  have dist: "distinct (map fst d)" using assms unfolding store_inv_def by simp
  have ms: "map symbol (map snd d) = map fst d" by (rule map_symbol_values[OF sy])
  have "distinct (map symbol (map snd d))" unfolding ms by (rule dist)
  then have d2: "distinct (map symbol (filter ?q (map snd d)))"
    by (rule distinct_map_filter)
  have p1: "\<forall>s \<in> set (filter ?q (map snd d)). signal s \<noteq> None" by simp
  have p3: "symbol ` set (filter ?q (map snd d)) \<inter> fst ` set ([] :: (string \<times> SignalType) list) = {}"
    by simp
  have "signalsForSentiment d =
          [] @ map (\<lambda>s. (symbol s, type (the (signal s)))) (filter ?q (map snd d))"
    unfolding signalsForSentiment_def by (rule sentiment_fold[OF p1 d2 p3])
  then show ?thesis
    using map_pairs_values[OF sy, of ?q] by simp
qed

lemma half_gt: "(real a > real n / 2) = (2 * a > n)"
proof -
  have "(real a > real n / 2) = (real n < 2 * real a)" by (simp add: field_simps)
  also have "\<dots> = (real n < real (2 * a))" by simp
  also have "\<dots> = (n < 2 * a)" by (simp only: of_nat_less_iff)
  finally show ?thesis .
qed

lemma map_of_pairs_absent:
  assumes "k \<notin> fst ` set d"
  shows "map_of (map (\<lambda>(k, s). (k, g s)) (filter p d)) k = None"
proof -
  have "k \<notin> fst ` set (map (\<lambda>(k, s). (k, g s)) (filter p d))"
    using assms by (force simp: image_iff)
  then show ?thesis unfolding map_of_eq_None_iff .
qed

lemma map_of_pairs:
  assumes "distinct (map fst d)"
  shows "map_of (map (\<lambda>(k, s). (k, g s)) (filter (\<lambda>(k, s). q s) d)) k =
           (case map_of d k of None \<Rightarrow> None | Some s \<Rightarrow> if q s then Some (g s) else None)"
  using assms
proof (induction d)
  case Nil
  show ?case by simp
next
  case (Cons a d)
  obtain k' s' where a: "a = (k', s')" by (cases a)
  have fresh: "k' \<notin> fst ` set d" using Cons.prems a by simp
  have IH: "map_of (map (\<lambda>(k, s). (k, g s)) (filter (\<lambda>(k, s). q s) d)) k =
           (case map_of d k of None \<Rightarrow> None | Some s \<Rightarrow> if q s then Some (g s) else None)"
    using Cons.IH Cons.prems by simp
  show ?case
  proof (cases "k = k'")
    case True
    have "map_of (map (\<lambda>(k, s). (k, g s)) (filter (\<lambda>(k, s). q s) d)) k' = None"
      by (rule map_of_pairs_absent[OF fresh])
    then show ?thesis using True a by simp
  next
    case False
    then show ?thesis using a IH by simp
  qed
qed

lemma keys_pairs: "map fst (map (\<lambda>(k, s). (k, g s)) xs) = map fst xs"
  by (induction xs) (simp_all add: case_prod_beta)

text \<open>
  C6: when the debounce timer fires on a reachable store, the effect hands exactly one
  aggregation call to the scheduler if the number of symbols that are \<open>ONLINE\<close> with a
  signal is more than half of \<open>STOCKS.length\<close>, and none otherwise; the argument of the
  call maps exactly those symbols, each to the type of its signal.
\<close>

theorem sentimentTimer_quorum:
  assumes "reachable STOCKS interval data"
  shows "(2 * card {k. \<exists>s sig. map_of data k = Some s \<and> status s = ONLINE \<and> signal s = Some sig}
            > length STOCKS \<longrightarrow>
          sentimentTimer STOCKS data = [signalsForSentiment data]) \<and>
         (\<not> 2 * card {k. \<exists>s sig. map_of data k = Some s \<and> status s = ONLINE \<and> signal s = Some sig}
            > length STOCKS \<longrightarrow>
          sentimentTimer STOCKS data = []) \<and>
         (\<forall>k. map_of (signalsForSentiment data) k =
            (case map_of data k of
               None \<Rightarrow> None
             | Some s \<Rightarrow> if status s = ONLINE then map_option type (signal s) else None))"
proof -
  let ?Q = "{k. \<exists>s sig. map_of data k = Some s \<and> status s = ONLINE \<and> signal s = Some sig}"
  let ?f = "filter (\<lambda>(k, s). signal s \<noteq> None \<and> status s = ONLINE) data"
  have inv: "store_inv data" by (rule reachable_store_inv[OF assms])
  then have dist: "distinct (map fst data)" unfolding store_inv_def by simp
  have eq: "signalsForSentiment data = map (\<lambda>(k, s). (k, type (the (signal s)))) ?f"
    by (rule signalsForSentiment_eq[OF inv])
  have keys: "map fst (signalsForSentiment data) = map fst ?f"
    unfolding eq by (rule keys_pairs)
  have df: "distinct (map fst ?f)" using dist by (rule distinct_map_filter)
  have "set (map fst ?f) = ?Q"
  proof (intro set_eqI iffI)
    fix k assume "k \<in> set (map fst ?f)"
    then obtain s where "(k, s) \<in> set data" and "signal s \<noteq> None" and "status s = ONLINE"
      by auto
    moreover from this have "map_of data k = Some s"
      using map_of_eq_Some_iff[OF dist] by simp
    ultimately show "k \<in> ?Q" by auto
  next
    fix k assume "k \<in> ?Q"
    then obtain s sig where m: "map_of data k = Some s" and o: "status s = ONLINE"
      and g: "signal s = Some sig" by blast
    have "(k, s) \<in> set data" using m by (rule map_of_SomeD)
    then have "(k, s) \<in> set ?f" using o g by simp
    then have "fst (k, s) \<in> fst ` set ?f" by (rule imageI)
    then show "k \<in> set (map fst ?f)" unfolding set_map fst_conv .
  qed
  then have cq: "card ?Q = length (map fst ?f)"
    using distinct_card[OF df] by simp
  have "length (signalsForSentiment data) = length (map fst (signalsForSentiment data))"
    by (simp only: length_map)
  also have "\<dots> = length (map fst ?f)" by (simp only: keys)
  also have "\<dots> = card ?Q" by (simp only: cq)
  finally have len: "length (signalsForSentiment data) = card ?Q" .
  have mo: "map_of (signalsForSentiment data) k =
            (case map_of data k of
               None \<Rightarrow> None
             | Some s \<Rightarrow> if status s = ONLINE then map_option type (signal s) else None)" for k
    unfolding eq map_of_pairs[OF dist, of "\<lambda>s. type (the (signal s))"
        "\<lambda>s. signal s \<noteq> None \<and> status s = ONLINE" k]
    by (cases "map_of data k") auto
  have thr: "real (length (signalsForSentiment data)) > real (length STOCKS) / 2
               \<longleftrightarrow> 2 * card ?Q > length STOCKS"
    unfolding len by (rule half_gt)
  have yes: "2 * card ?Q > length STOCKS \<Longrightarrow>
               sentimentTimer STOCKS data = [signalsForSentiment data]"
    unfolding sentimentTimer_def using thr by simp
  have no: "\<not> 2 * card ?Q > length STOCKS \<Longrightarrow> sentimentTimer STOCKS data = []"
    unfolding sentimentTimer_def using thr by simp
  show ?thesis using yes no mo by blast
qed

theorem sentimentTimer_quorum_witness:
  "sentimentTimer [''TCS'', ''INFY'', ''WIPRO'']
     (fetchSignal_resolved 30 ''INFY'' [] \<lparr>type = SELL, reason = ''weak'', news = []\<rparr>
        (fetchSignal_resolved 30 ''TCS'' [] \<lparr>type = BUY, reason = ''strong'', news = []\<rparr>
           (initialState [''TCS'', ''INFY'', ''WIPRO''] 30))) =
     [[(''TCS'', BUY), (''INFY'', SELL)]] \<and>
   sentimentTimer [''TCS'', ''INFY'']
     (fetchSignal_resolved 30 ''TCS'' [] \<lparr>type = BUY, reason = ''strong'', news = []\<rparr>
        (initialState [''TCS'', ''INFY''] 30)) = []"
proof -
  let ?B = "\<lparr>type = BUY, reason = ''strong'', news = []\<rparr>"
  let ?S = "\<lparr>type = SELL, reason = ''weak'', news = []\<rparr>"
  let ?D = "fetchSignal_resolved 30 ''INFY'' [] ?S
        (fetchSignal_resolved 30 ''TCS'' [] ?B (initialState [''TCS'', ''INFY'', ''WIPRO''] 30))"
  let ?E = "fetchSignal_resolved 30 ''TCS'' [] ?B (initialState [''TCS'', ''INFY''] 30)"
  have D: "?D = [(''TCS'', \<lparr>symbol = ''TCS'', candles = [], signal = Some ?B, countdown = 30,
                      status = ONLINE, chatHistory = [], error = None\<rparr>),
                 (''INFY'', \<lparr>symbol = ''INFY'', candles = [], signal = Some ?S, countdown = 30,
                      status = ONLINE, chatHistory = [], error = None\<rparr>),
                 (''WIPRO'', \<lparr>symbol = ''WIPRO'', candles = [], signal = None, countdown = 30,
                      status = OFFLINE, chatHistory = [], error = None\<rparr>)]"
    by (simp add: initialState_def fetchSignal_resolved_def setStock_def)
  have E: "?E = [(''TCS'', \<lparr>symbol = ''TCS'', candles = [], signal = Some ?B, countdown = 30,
                      status = ONLINE, chatHistory = [], error = None\<rparr>),
                 (''INFY'', \<lparr>symbol = ''INFY'', candles = [], signal = None, countdown = 30,
                      status = OFFLINE, chatHistory = [], error = None\<rparr>)]"
    by (simp add: initialState_def fetchSignal_resolved_def setStock_def)
  have QD: "{k. \<exists>s sig. map_of ?D k = Some s \<and> status s = ONLINE \<and> signal s = Some sig} =
            {''TCS'', ''INFY''}"
    unfolding D by (auto split: if_splits)
  have QE: "{k. \<exists>s sig. map_of ?E k = Some s \<and> status s = ONLINE \<and> signal s = Some sig} =
            {''TCS''}"
    unfolding E by (auto split: if_splits)
  have rD: "reachable [''TCS'', ''INFY'', ''WIPRO''] 30 ?D" by (intro reachable.intros)
  have rE: "reachable [''TCS'', ''INFY''] 30 ?E" by (intro reachable.intros)
  have cD: "2 * card {k. \<exists>s sig. map_of ?D k = Some s \<and> status s = ONLINE \<and> signal s = Some sig}
             > length [''TCS'', ''INFY'', ''WIPRO'']"
    unfolding QD by simp
  have cE: "\<not> 2 * card {k. \<exists>s sig. map_of ?E k = Some s \<and> status s = ONLINE \<and> signal s = Some sig}
             > length [''TCS'', ''INFY'']"
    unfolding QE by simp
  have one: "sentimentTimer [''TCS'', ''INFY'', ''WIPRO''] ?D = [signalsForSentiment ?D]"
    using sentimentTimer_quorum[OF rD] cD by blast
  have none: "sentimentTimer [''TCS'', ''INFY''] ?E = []"
    using sentimentTimer_quorum[OF rE] cE by blast
  have sf: "signalsForSentiment ?D = [(''TCS'', BUY), (''INFY'', SELL)]"
    unfolding D by (simp add: signalsForSentiment_def)
  show ?thesis using one none sf by simp
qed

section \<open>Properties of the limiter and of the whole component\<close>

lemma limiter_inv_new: "limiter_inv n (newLimiter n)"
  by (simp add: limiter_inv_def newLimiter_def)

lemma limiter_inv_schedule:
  assumes "limiter_inv n L"
  shows "limiter_inv n (schedule a L)"
  using assms unfolding limiter_inv_def schedule_def
  by (auto simp: sorted_wrt_append less_Suc_eq)

lemma limiter_inv_admit:
  assumes "limiter_inv n L"
  shows "limiter_inv n (admit L)"
proof (cases "next_call L")
  case None
  then show ?thesis using assms by (simp add: admit_def)
next
  case (Some c)
  then have cap: "length (inFlight L) < maxConcurrent L" and q: "queue L = c # tl (queue L)"
    by (auto simp: next_call_def split: if_splits list.splits)
  have "admitted L @ map fst (queue L) = (admitted L @ [fst c]) @ map fst (tl (queue L))"
    by (subst q) simp
  then show ?thesis
    using assms cap Some unfolding limiter_inv_def admit_def by simp
qed

lemma limiter_inv_complete:
  assumes "limiter_inv n L"
  shows "limiter_inv n (complete i L)"
proof -
  have "length (filter (\<lambda>c. fst c \<noteq> i) (inFlight L)) \<le> length (inFlight L)"
    by (rule length_filter_le)
  moreover have "length (inFlight L) \<le> n" using assms unfolding limiter_inv_def by simp
  ultimately have "length (filter (\<lambda>c. fst c \<noteq> i) (inFlight L)) \<le> n" by linarith
  then show ?thesis using assms unfolding limiter_inv_def complete_def by simp
qed

lemma limiter_inv_cancel:
  assumes "limiter_inv n L"
  shows "limiter_inv n (cancel i L)"
proof -
  have m: "map fst (filter (\<lambda>c. fst c \<noteq> i) (queue L)) = filter (\<lambda>j. j \<noteq> i) (map fst (queue L))"
    by (simp add: filter_map comp_def)
  have s: "sorted_wrt (<) (admitted L @ filter (\<lambda>j. j \<noteq> i) (map fst (queue L)))"
    using assms unfolding limiter_inv_def by (auto simp: sorted_wrt_append sorted_wrt_filter)
  show ?thesis
    using assms s unfolding limiter_inv_def cancel_def by (auto simp: m)
qed

lemma limiter_inv_step:
  assumes "limiter_inv n L"
  shows "limiter_inv n (limiter_step L e)"
  using assms
  by (cases e)
    (simp_all add: limiter_inv_schedule limiter_inv_admit limiter_inv_complete limiter_inv_cancel)

lemma limiter_inv_run: "limiter_inv n (limiter_run n events)"
  unfolding limiter_run_def
  by (induction events rule: rev_induct) (simp_all add: limiter_inv_new limiter_inv_step)

text \<open>
  C9: after any sequence of submissions, admissions, completions and cancellations the
  limiter has at most its configured number of actions in flight; the ids admitted so
  far, followed by the ids still queued, are in the order of submission, so no call was
  admitted before one submitted earlier that is admitted or still queued; and an
  admission takes the call at the head of the queue when there is capacity, and none
  otherwise.
\<close>

theorem limiter_bound_and_fifo:
  "length (inFlight (limiter_run n events)) \<le> n \<and>
   sorted_wrt (<) (admitted (limiter_run n events) @ map fst (queue (limiter_run n events))) \<and>
   admitted (limiter_step (limiter_run n events) Admit) =
     admitted (limiter_run n events) @
       (if length (inFlight (limiter_run n events)) < n
        then map fst (take 1 (queue (limiter_run n events))) else [])"
proof -
  have inv: "limiter_inv n (limiter_run n events)" by (rule limiter_inv_run)
  have a: "length (inFlight (limiter_run n events)) \<le> n"
    using inv unfolding limiter_inv_def by simp
  have b: "sorted_wrt (<) (admitted (limiter_run n events) @ map fst (queue (limiter_run n events)))"
    using inv unfolding limiter_inv_def by simp
  have m: "maxConcurrent (limiter_run n events) = n"
    using inv unfolding limiter_inv_def by simp
  have c: "admitted (limiter_step (limiter_run n events) Admit) =
     admitted (limiter_run n events) @
       (if length (inFlight (limiter_run n events)) < n
        then map fst (take 1 (queue (limiter_run n events))) else [])"
    by (cases "queue (limiter_run n events)") (simp_all add: admit_def next_call_def m)
  show ?thesis using a b c by blast
qed


theorem limiter_bound_and_fifo_witness:
  "length (inFlight (limiter_run 2
      [Schedule ''a'', Schedule ''b'', Schedule ''c'', Schedule ''d'', Schedule ''e'',
       Admit, Admit, Admit, Cancel 2, Complete 0, Admit])) \<le> 2 \<and>
   admitted (limiter_run 2
      [Schedule ''a'', Schedule ''b'', Schedule ''c'', Schedule ''d'', Schedule ''e'',
       Admit, Admit, Admit, Cancel 2, Complete 0, Admit]) = [0, 1, 3] \<and>
   map fst (queue (limiter_run 2
      [Schedule ''a'', Schedule ''b'', Schedule ''c'', Schedule ''d'', Schedule ''e'',
       Admit, Admit, Admit, Cancel 2, Complete 0, Admit])) = [4]"
proof -
  have b: "length (inFlight (limiter_run 2
      [Schedule ''a'', Schedule ''b'', Schedule ''c'', Schedule ''d'', Schedule ''e'',
       Admit, Admit, Admit, Cancel 2, Complete 0, Admit])) \<le> 2"
    using limiter_bound_and_fifo[of 2 "[Schedule ''a'', Schedule ''b'', Schedule ''c'',
       Schedule ''d'', Schedule ''e'', Admit, Admit, Admit, Cancel 2, Complete 0, Admit]"]
    by (rule conjunct1)
  have a: "admitted (limiter_run 2
      [Schedule ''a'', Schedule ''b'', Schedule ''c'', Schedule ''d'', Schedule ''e'',
       Admit, Admit, Admit, Cancel 2, Complete 0, Admit]) = [0, 1, 3]"
    by code_simp
  have q: "map fst (queue (limiter_run 2
      [Schedule ''a'', Schedule ''b'', Schedule ''c'', Schedule ''d'', Schedule ''e'',
       Admit, Admit, Admit, Cancel 2, Complete 0, Admit])) = [4]"
    by code_simp
  show ?thesis using b a q by blast
qed

lemma limiter_inv_schedules:
  assumes "limiter_inv n L"
  shows "limiter_inv n (fold (\<lambda>x. schedule (f x)) xs L)"
  using assms by (induction xs arbitrary: L) (simp_all add: limiter_inv_schedule)

lemma sys_step_inv:
  assumes "limiter_inv n (limiter S)"
  shows "limiter_inv n (limiter (sys_step STOCKS I S e))"
proof (cases e)
  case Mount
  then show ?thesis using assms by (simp add: limiter_inv_schedules)
next
  case ClickRefreshAll
  then show ?thesis using assms by (simp add: limiter_inv_schedules)
next
  case (Tick t)
  then show ?thesis using assms by (simp add: limiter_inv_schedules split: prod.splits)
next
  case AdmitNext
  then show ?thesis using assms
    by (simp add: limiter_inv_admit split: option.splits prod.splits Action.splits)
next
  case (Resolved i c g)
  then show ?thesis using assms
    by (simp add: limiter_inv_complete split: option.splits Action.splits)
next
  case (Rejected i err)
  then show ?thesis using assms
    by (simp add: limiter_inv_complete split: option.splits Action.splits)
next
  case SentimentTimerFires
  then show ?thesis using assms by (simp add: limiter_inv_schedules)
next
  case (SentimentDone i)
  then show ?thesis using assms
    by (simp add: limiter_inv_complete split: option.splits Action.splits)
qed

lemma sys_run_inv: "limiter_inv n (limiter (sys_run STOCKS I n events))"
  unfolding sys_run_def
  by (induction events rule: rev_induct)
    (simp_all add: initialSystem_def limiter_inv_new sys_step_inv)

text \<open>
  In every run the refresh calls of one symbol that are in flight are at most as many as
  the limiter admits at once. So a limiter that admits one call at a time keeps every
  symbol at one outstanding call; the component itself adds no bound of its own.
\<close>

lemma outstanding_le_maxConcurrent:
  "outstanding (sys_run STOCKS I n events) symb \<le> n"
proof -
  have "outstanding (sys_run STOCKS I n events) symb
          \<le> length (inFlight (limiter (sys_run STOCKS I n events)))"
    unfolding outstanding_def by (rule length_filter_le)
  moreover have "length (inFlight (limiter (sys_run STOCKS I n events))) \<le> n"
    using sys_run_inv[of n STOCKS I events] unfolding limiter_inv_def by simp
  ultimately show ?thesis by linarith
qed

text \<open>
  An admission starts the call at the head of the queue whenever the limiter has
  capacity, whatever the status of the symbol of that call: neither \<open>fetchSignal\<close> nor
  \<open>handleRefreshAll\<close> looks at the status.
\<close>

lemma admission_ignores_status:
  "inFlight (limiter (sys_step STOCKS I S AdmitNext)) =
     inFlight (limiter S) @
       (if length (inFlight (limiter S)) < maxConcurrent (limiter S)
        then take 1 (queue (limiter S)) else [])"
  by (cases "queue (limiter S)") (auto simp: admit_def next_call_def split: Action.splits)


text \<open>
  What the lost hand-over of the tick does to the whole component. Both symbols have been
  refreshed with a refresh interval of 1, and the next tick runs with the late updater:
  both records are \<open>REFRESHING\<close>, nothing is queued and nothing is in flight. From here no
  tick, no click on Refresh All, no admission and no sentiment timer changes anything: no
  refresh is started again.
\<close>

lemma late_updater_freezes:
  "isRefreshingAll (stockData
     (sys_run [''TCS'', ''INFY''] 1 2
        [Mount, AdmitNext, AdmitNext, Resolved 0 [] \<lparr>type = BUY, reason = ''up'', news = []\<rparr>,
         Resolved 1 [] \<lparr>type = BUY, reason = ''up'', news = []\<rparr>, Tick AtNextRender])) \<and>
   queue (limiter
     (sys_run [''TCS'', ''INFY''] 1 2
        [Mount, AdmitNext, AdmitNext, Resolved 0 [] \<lparr>type = BUY, reason = ''up'', news = []\<rparr>,
         Resolved 1 [] \<lparr>type = BUY, reason = ''up'', news = []\<rparr>, Tick AtNextRender])) = [] \<and>
   inFlight (limiter
     (sys_run [''TCS'', ''INFY''] 1 2
        [Mount, AdmitNext, AdmitNext, Resolved 0 [] \<lparr>type = BUY, reason = ''up'', news = []\<rparr>,
         Resolved 1 [] \<lparr>type = BUY, reason = ''up'', news = []\<rparr>, Tick AtNextRender])) = [] \<and>
   sys_step [''TCS'', ''INFY''] 1
     (sys_run [''TCS'', ''INFY''] 1 2
        [Mount, AdmitNext, AdmitNext, Resolved 0 [] \<lparr>type = BUY, reason = ''up'', news = []\<rparr>,
         Resolved 1 [] \<lparr>type = BUY, reason = ''up'', news = []\<rparr>, Tick AtNextRender]) (Tick t) =
     (sys_run [''TCS'', ''INFY''] 1 2
        [Mount, AdmitNext, AdmitNext, Resolved 0 [] \<lparr>type = BUY, reason = ''up'', news = []\<rparr>,
         Resolved 1 [] \<lparr>type = BUY, reason = ''up'', news = []\<rparr>, Tick AtNextRender]) \<and>
   sys_step [''TCS'', ''INFY''] 1
     (sys_run [''TCS'', ''INFY''] 1 2
        [Mount, AdmitNext, AdmitNext, Resolved 0 [] \<lparr>type = BUY, reason = ''up'', news = []\<rparr>,
         Resolved 1 [] \<lparr>type = BUY, reason = ''up'', news = []\<rparr>, Tick AtNextRender]) ClickRefreshAll =
     (sys_run [''TCS'', ''INFY''] 1 2
        [Mount, AdmitNext, AdmitNext, Resolved 0 [] \<lparr>type = BUY, reason = ''up'', news = []\<rparr>,
         Resolved 1 [] \<lparr>type = BUY, reason = ''up'', news = []\<rparr>, Tick AtNextRender]) \<and>
   sys_step [''TCS'', ''INFY''] 1
     (sys_run [''TCS'', ''INFY''] 1 2
        [Mount, AdmitNext, AdmitNext, Resolved 0 [] \<lparr>type = BUY, reason = ''up'', news = []\<rparr>,
         Resolved 1 [] \<lparr>type = BUY, reason = ''up'', news = []\<rparr>, Tick AtNextRender]) AdmitNext =
     (sys_run [''TCS'', ''INFY''] 1 2
        [Mount, AdmitNext, AdmitNext, Resolved 0 [] \<lparr>type = BUY, reason = ''up'', news = []\<rparr>,
         Resolved 1 [] \<lparr>type = BUY, reason = ''up'', news = []\<rparr>, Tick AtNextRender]) \<and>
   sys_step [''TCS'', ''INFY''] 1
     (sys_run [''TCS'', ''INFY''] 1 2
        [Mount, AdmitNext, AdmitNext, Resolved 0 [] \<lparr>type = BUY, reason = ''up'', news = []\<rparr>,
         Resolved 1 [] \<lparr>type = BUY, reason = ''up'', news = []\<rparr>, Tick AtNextRender]) SentimentTimerFires =
     (sys_run [''TCS'', ''INFY''] 1 2
        [Mount, AdmitNext, AdmitNext, Resolved 0 [] \<lparr>type = BUY, reason = ''up'', news = []\<rparr>,
         Resolved 1 [] \<lparr>type = BUY, reason = ''up'', news = []\<rparr>, Tick AtNextRender])"
proof -
  have S: "(sys_run [''TCS'', ''INFY''] 1 2
        [Mount, AdmitNext, AdmitNext, Resolved 0 [] \<lparr>type = BUY, reason = ''up'', news = []\<rparr>,
         Resolved 1 [] \<lparr>type = BUY, reason = ''up'', news = []\<rparr>, Tick AtNextRender]) =
      \<lparr>stockData =
         [(''TCS'', \<lparr>symbol = ''TCS'', candles = [],
                     signal = Some \<lparr>type = BUY, reason = ''up'', news = []\<rparr>, countdown = 0,
                     status = REFRESHING, chatHistory = [], error = None\<rparr>),
          (''INFY'', \<lparr>symbol = ''INFY'', candles = [],
                      signal = Some \<lparr>type = BUY, reason = ''up'', news = []\<rparr>, countdown = 0,
                      status = REFRESHING, chatHistory = [], error = None\<rparr>)],
       limiter = \<lparr>maxConcurrent = 2, queue = [], inFlight = [], nextId = 2,
                   admitted = [0, 1]\<rparr>\<rparr>"
    by (simp add: sys_run_def initialSystem_def initialState_def newLimiter_def
        handleRefreshAll_def schedule_def next_call_def admit_def complete_def
        fetchSignal_begin_def fetchSignal_resolved_def setStock_def tick_def)
  show ?thesis
    unfolding S
    by (cases t)
      (simp_all add: tick_def isRefreshingAll_def next_call_def sentimentTimer_def
        signalsForSentiment_def)
qed

end
